theory Spec2Isabelle
  imports Main "HOL-Library.Sublist" "HOL-Library.AList"
begin

section \<open>Python values and errors\<close>

text \<open>
  The scripts are Python. Exceptions are modelled as values of \<open>py_error\<close>; a function
  that can raise returns \<open>py_error + 'a\<close> with \<open>Inl\<close> for the exception.
\<close>

datatype py_error = ValueError | KeyError | AttributeError | TypeError | NameError

text \<open>
  A module-level name of a script, such as its \<open>logger\<close>: a function body that reads the
  name while no statement of the module has bound it raises NameError. A function that
  assigns the name without declaring it \<open>global\<close> binds a local variable of its own and
  leaves the module-level name as it was. \<open>with_global g k\<close> is a statement that reads
  the name and only logs, followed by \<open>k\<close>.
\<close>

datatype global_name = Unbound | Bound

fun with_global :: "global_name \<Rightarrow> py_error + 'a \<Rightarrow> py_error + 'a" where
  "with_global Unbound k = Inl NameError"
| "with_global Bound k = k"

text \<open>
  \<open>range(start, stop, step)\<close> for a positive step, and the slice \<open>xs[i:j]\<close> for
  non-negative bounds (a slice never raises: it is cut at the end of the list).
\<close>

function py_range :: "nat \<Rightarrow> nat \<Rightarrow> nat \<Rightarrow> nat list" where
  "py_range start stop step =
     (if step = 0 \<or> stop \<le> start then [] else start # py_range (start + step) stop step)"
  by pat_completeness auto
termination
  by (relation "measure (\<lambda>(start, stop, step). stop - start)") auto

declare py_range.simps [simp del]

definition py_slice :: "'a list \<Rightarrow> nat \<Rightarrow> nat \<Rightarrow> 'a list" where
  "py_slice xs i j = take (j - i) (drop i xs)"

text \<open>
  The chunking idiom \<open>[xs[i:i + n] for i in range(0, len(xs), n)]\<close>, which the splitter,
  the deduplicator and the playlist adder all use.
\<close>

definition chunks :: "'a list \<Rightarrow> nat \<Rightarrow> 'a list list" where
  "chunks xs n = map (\<lambda>i. py_slice xs i (i + n)) (py_range 0 (length xs) n)"

section \<open>m3u_splitter.py: split_into_batches\<close>

text \<open>
  \<open>return [songs[i:i + batch_size] for i in range(0, len(songs), batch_size)]\<close>.
  \<open>range\<close> raises ValueError for a zero step and is empty for a negative step
  (start 0, stop \<open>len(songs) \<ge> 0\<close>).
\<close>

definition split_into_batches :: "'a list \<Rightarrow> int \<Rightarrow> py_error + 'a list list" where
  "split_into_batches songs batch_size =
     (if batch_size = 0 then Inl ValueError
      else if batch_size < 0 then Inr []
      else Inr (chunks songs (nat batch_size)))"

section \<open>Python strings, integers and dicts\<close>

text \<open>
  A Python \<open>str\<close> is a \<open>string\<close>: one \<open>char\<close> for each code point of the decoded text,
  for the code points 0 to 255. A value stored in a dict of the scripts is a string or an
  integer, and a dict is an association list in insertion order (its keys are distinct).
\<close>

datatype pyval = PyStr string | PyInt int

type_synonym song = "(string \<times> pyval) list"

text \<open>
  \<open>s.strip()\<close> removes the characters with \<open>str.isspace()\<close> at both ends; below 256
  these are the twelve code points of \<open>py_whitespace\<close>.
\<close>

definition py_whitespace :: "char list" where
  "py_whitespace = [CHR 0x09, CHR 0x0A, CHR 0x0B, CHR 0x0C, CHR 0x0D, CHR 0x1C, CHR 0x1D,
     CHR 0x1E, CHR 0x1F, CHR 0x20, CHR 0x85, CHR 0xA0]"

definition py_isspace :: "char \<Rightarrow> bool" where
  "py_isspace c \<longleftrightarrow> c \<in> set py_whitespace"

definition py_strip :: "string \<Rightarrow> string" where
  "py_strip s = rev (dropWhile py_isspace (rev (dropWhile py_isspace s)))"

text \<open>
  \<open>s.split(sep, 1)\<close> for a non-empty separator: \<open>split_first\<close> finds the first
  occurrence of \<open>sep\<close> and gives what is before and after it; \<open>sep in s\<close> is whether
  there is one.
\<close>

fun split_first :: "string \<Rightarrow> string \<Rightarrow> (string \<times> string) option" where
  "split_first sep [] = None"
| "split_first sep (c # cs) =
     (if prefix sep (c # cs) then Some ([], drop (length sep) (c # cs))
      else (case split_first sep cs of
              None \<Rightarrow> None
            | Some (front, back) \<Rightarrow> Some (c # front, back)))"

definition py_split1 :: "string \<Rightarrow> string \<Rightarrow> string list" where
  "py_split1 sep s =
     (case split_first sep s of None \<Rightarrow> [s] | Some (front, back) \<Rightarrow> [front, back])"

definition py_contains :: "string \<Rightarrow> string \<Rightarrow> bool" where
  "py_contains sep s \<longleftrightarrow> split_first sep s \<noteq> None"

text \<open>
  \<open>int(s)\<close> in base 10, \<open>None\<close> for ValueError: whitespace is skipped at both ends (for
  \<open>int\<close> the code points of \<open>int_whitespace\<close>: 0x1C to 0x1F are not skipped), then an
  optional sign, then decimal digits with single underscores allowed between digits.
  Integers are unbounded; the interpreter's optional limit on the number of digits of a
  conversion is not modelled.
\<close>

definition is_digit :: "char \<Rightarrow> bool" where
  "is_digit c \<longleftrightarrow> c \<in> set ''0123456789''"

definition digit_value :: "char \<Rightarrow> nat" where
  "digit_value c = of_char c - 48"

definition digit_char :: "nat \<Rightarrow> char" where
  "digit_char d = ''0123456789'' ! (d mod 10)"

definition int_whitespace :: "char list" where
  "int_whitespace = [CHR 0x09, CHR 0x0A, CHR 0x0B, CHR 0x0C, CHR 0x0D, CHR 0x20, CHR 0x85, CHR 0xA0]"

definition int_isspace :: "char \<Rightarrow> bool" where
  "int_isspace c \<longleftrightarrow> c \<in> set int_whitespace"

fun digits_value :: "string \<Rightarrow> nat \<Rightarrow> nat option" where
  "digits_value [] acc = Some acc"
| "digits_value (c # cs) acc =
     (if is_digit c then digits_value cs (10 * acc + digit_value c)
      else if c = CHR ''_'' then
        (case cs of
           [] \<Rightarrow> None
         | d # ds \<Rightarrow> if is_digit d then digits_value cs acc else None)
      else None)"

definition unsigned_value :: "string \<Rightarrow> nat option" where
  "unsigned_value s =
     (case s of [] \<Rightarrow> None | d # ds \<Rightarrow> if is_digit d then digits_value s 0 else None)"

definition py_int :: "string \<Rightarrow> int option" where
  "py_int s =
     (case rev (dropWhile int_isspace (rev (dropWhile int_isspace s))) of
        [] \<Rightarrow> None
      | c # cs \<Rightarrow>
          if c = CHR ''-'' then map_option (\<lambda>n. - int n) (unsigned_value cs)
          else if c = CHR ''+'' then map_option int (unsigned_value cs)
          else map_option int (unsigned_value (c # cs)))"

text \<open>\<open>str(i)\<close>, as \<open>f"{i}"\<close> formats an integer: decimal digits, with \<open>-\<close> when negative.\<close>

function nat_digits :: "nat \<Rightarrow> string" where
  "nat_digits n = (if n < 10 then [digit_char n] else nat_digits (n div 10) @ [digit_char (n mod 10)])"
  by pat_completeness auto
termination
  by (relation "measure id") auto

declare nat_digits.simps [simp del]

definition py_str_int :: "int \<Rightarrow> string" where
  "py_str_int i = (if i < 0 then CHR ''-'' # nat_digits (nat (- i)) else nat_digits (nat i))"

text \<open>
  Truth value and \<open>f"{v}"\<close> of a stored value, and \<open>d[k]\<close>, which raises KeyError for a
  missing key.
\<close>

definition py_truthy :: "pyval \<Rightarrow> bool" where
  "py_truthy v = (case v of PyStr s \<Rightarrow> s \<noteq> [] | PyInt i \<Rightarrow> i \<noteq> 0)"

definition py_format :: "pyval \<Rightarrow> string" where
  "py_format v = (case v of PyStr s \<Rightarrow> s | PyInt i \<Rightarrow> py_str_int i)"

definition py_subscript :: "song \<Rightarrow> string \<Rightarrow> py_error + pyval" where
  "py_subscript d k = (case map_of d k of None \<Rightarrow> Inl KeyError | Some v \<Rightarrow> Inr v)"

section \<open>m3u_splitter.py: parse_m3u and the playlist-file writer\<close>

text \<open>
  \<open>for line in f\<close> on a file opened in text mode: the text is cut after each line end,
  and the line ends \<open>\n\<close>, \<open>\r\n\<close> and \<open>\r\<close> are all read as \<open>\n\<close>. The second argument
  of \<open>read_lines\<close> is the line read so far.
\<close>

fun read_lines :: "string \<Rightarrow> string \<Rightarrow> string list" where
  "read_lines [] cur = (if cur = [] then [] else [cur])"
| "read_lines [c] cur =
     (if c = CHR 0x0A \<or> c = CHR 0x0D then [cur @ [CHR 0x0A]] else [cur @ [c]])"
| "read_lines (c # d # cs) cur =
     (if c = CHR 0x0A then (cur @ [CHR 0x0A]) # read_lines (d # cs) []
      else if c = CHR 0x0D then
        (if d = CHR 0x0A then (cur @ [CHR 0x0A]) # read_lines cs []
         else (cur @ [CHR 0x0A]) # read_lines (d # cs) [])
      else read_lines (d # cs) (cur @ [c]))"

definition file_lines :: "string \<Rightarrow> string list" where
  "file_lines text = read_lines text []"

text \<open>
  The \<open>try\<close> block of the \<open>#EXTINF:\<close> branch. \<open>split_artist_title\<close> is the part from
  \<open>artist = ''\<close> to the assignment of \<open>title\<close>, giving \<open>(artist, title)\<close>.
  \<open>parse_extinf\<close> gives the new \<open>current_song\<close>: \<open>None\<close> is the \<open>except\<close> branch,
  reached when \<open>int\<close> raises.
\<close>

definition split_artist_title :: "string \<Rightarrow> string \<times> string" where
  "split_artist_title title_artist =
     (if py_contains '' - '' title_artist then
        (case py_split1 '' - '' title_artist of
           [] \<Rightarrow> ([], [])
         | [p0] \<Rightarrow> (py_strip p0, [])
         | p0 # p1 # _ \<Rightarrow> (py_strip p0, py_strip p1))
      else ([], title_artist))"

definition parse_extinf :: "string \<Rightarrow> song option" where
  "parse_extinf line =
     (let metadata = py_split1 '','' (drop 8 line);
          duration = (case metadata of [] \<Rightarrow> Some 0 | m0 # _ \<Rightarrow> py_int m0);
          title_artist = (case metadata of m0 # m1 # _ \<Rightarrow> m1 | _ \<Rightarrow> [])
      in case duration of
           None \<Rightarrow> None
         | Some duration \<Rightarrow>
             (case split_artist_title title_artist of
                (artist, title) \<Rightarrow>
                  Some [(''path'', PyStr []), (''title'', PyStr title), (''artist'', PyStr artist),
                        (''duration'', PyInt duration), (''metadata'', PyStr title_artist)]))"

text \<open>
  The body of the loop over the lines, on the state \<open>(songs, current_song)\<close>, with the
  branches in the order of the source; \<open>current_song['path'] = line\<close> updates the key
  in place.
\<close>

fun parse_step :: "song list \<times> song option \<Rightarrow> string \<Rightarrow> song list \<times> song option" where
  "parse_step (songs, current_song) raw =
     (let line = py_strip raw in
      if line = [] then (songs, current_song)
      else if line = ''#EXTM3U'' then (songs, current_song)
      else if prefix ''#EXTINF:'' line then (songs, parse_extinf line)
      else if \<not> prefix ''#'' line \<and> current_song \<noteq> None then
        (case current_song of
           Some song \<Rightarrow> (songs @ [AList.update ''path'' (PyStr line) song], None)
         | None \<Rightarrow> (songs, current_song))
      else if prefix ''#'' line then (songs, current_song)
      else if \<not> prefix ''#'' line then
        (songs @ [[(''path'', PyStr line), (''title'', PyStr []), (''artist'', PyStr []),
                   (''duration'', PyInt 0), (''metadata'', PyStr [])]], current_song)
      else (songs, current_song))"

definition parse_lines :: "string list \<Rightarrow> song list \<times> song option" where
  "parse_lines lines = foldl parse_step ([], None) lines"

text \<open>\<open>parse_m3u\<close>, on the text of the file that it opens.\<close>

definition parse_m3u :: "string \<Rightarrow> song list" where
  "parse_m3u text = fst (parse_lines (file_lines text))"

text \<open>
  The writer: the body of \<open>for i, batch in enumerate(batches)\<close> in \<open>save_batches\<close>.
  \<open>write_song\<close> is what the loop over the songs writes for one song, \<open>save_batch\<close> the
  text of the file written for one batch. \<open>song[...]\<close> raises KeyError for a dict
  without the key.
\<close>

definition write_song :: "song \<Rightarrow> py_error + string" where
  "write_song song =
     (case py_subscript song ''metadata'' of
        Inl e \<Rightarrow> Inl e
      | Inr m \<Rightarrow>
          (case (if py_truthy m then
                   (case py_subscript song ''duration'' of
                      Inl e \<Rightarrow> Inl e
                    | Inr duration \<Rightarrow>
                        (case py_subscript song ''metadata'' of
                           Inl e \<Rightarrow> Inl e
                         | Inr metadata \<Rightarrow>
                             Inr (''#EXTINF:'' @ py_format duration @ '','' @ py_format metadata
                                    @ [CHR 0x0A])))
                 else Inr []) of
             Inl e \<Rightarrow> Inl e
           | Inr extinf \<Rightarrow>
               (case py_subscript song ''path'' of
                  Inl e \<Rightarrow> Inl e
                | Inr path \<Rightarrow> Inr (extinf @ py_format path @ [CHR 0x0A]))))"

fun write_songs :: "song list \<Rightarrow> string \<Rightarrow> py_error + string" where
  "write_songs [] out = Inr out"
| "write_songs (song # rest) out =
     (case write_song song of Inl e \<Rightarrow> Inl e | Inr t \<Rightarrow> write_songs rest (out @ t))"

definition save_batch :: "song list \<Rightarrow> py_error + string" where
  "save_batch batch = write_songs batch (''#EXTM3U'' @ [CHR 0x0A])"

text \<open>
  For stating and proving the claims. \<open>mk_song\<close> is the record that the parser builds
  from a path, a duration and the text after the first comma of an \<open>#EXTINF:\<close> line;
  \<open>good_path\<close> and \<open>good_meta\<close> are what holds of the paths and metadata strings of
  parsed records; \<open>forget_duration\<close> sets the duration of a record with empty metadata
  to 0; \<open>entry_lines\<close> are the lines that the writer writes for a record.
\<close>

definition no_nl :: "string \<Rightarrow> bool" where
  "no_nl s \<longleftrightarrow> CHR 0x0A \<notin> set s \<and> CHR 0x0D \<notin> set s"

definition mk_song :: "string \<Rightarrow> int \<Rightarrow> string \<Rightarrow> song" where
  "mk_song path duration title_artist =
     [(''path'', PyStr path), (''title'', PyStr (snd (split_artist_title title_artist))),
      (''artist'', PyStr (fst (split_artist_title title_artist))),
      (''duration'', PyInt duration), (''metadata'', PyStr title_artist)]"

definition good_path :: "string \<Rightarrow> bool" where
  "good_path p \<longleftrightarrow>
     p \<noteq> [] \<and> \<not> py_isspace (hd p) \<and> \<not> py_isspace (last p) \<and> \<not> prefix ''#'' p \<and> no_nl p"

definition good_meta :: "string \<Rightarrow> bool" where
  "good_meta ta \<longleftrightarrow> no_nl ta \<and> (ta \<noteq> [] \<longrightarrow> \<not> py_isspace (last ta))"

definition good_song :: "song \<Rightarrow> bool" where
  "good_song s \<longleftrightarrow> (\<exists>p d ta. s = mk_song p d ta \<and> good_path p \<and> good_meta ta)"

definition pending_ok :: "song option \<Rightarrow> bool" where
  "pending_ok cur \<longleftrightarrow>
     (case cur of None \<Rightarrow> True | Some c \<Rightarrow> \<exists>d ta. c = mk_song [] d ta \<and> good_meta ta)"

definition forget_duration :: "song \<Rightarrow> song" where
  "forget_duration song =
     (if map_of song ''metadata'' = Some (PyStr [])
      then AList.update ''duration'' (PyInt 0) song else song)"

definition extinf_line :: "int \<Rightarrow> string \<Rightarrow> string" where
  "extinf_line d ta = ''#EXTINF:'' @ py_str_int d @ '','' @ ta"

definition entry_lines :: "string \<Rightarrow> int \<Rightarrow> string \<Rightarrow> string list" where
  "entry_lines p d ta =
     (if ta \<noteq> [] then [extinf_line d ta @ [CHR 0x0A]] else []) @ [p @ [CHR 0x0A]]"

text \<open>Two playlist files to run the parser and the writer on.\<close>

definition demo_m3u :: string where
  "demo_m3u = ''#EXTM3U'' @ [CHR 0x0A] @ ''#EXTINF:123, Artist - Title '' @ [CHR 0x0D, CHR 0x0A]
      @ ''  /music/a.mp3'' @ [CHR 0x0A] @ ''b.mp3''"

definition lossy_m3u :: string where
  "lossy_m3u = ''#EXTINF:123,'' @ [CHR 0x0A] @ ''song.mp3'' @ [CHR 0x0A]"

section \<open>spotify_playlist_deduplicator.py\<close>

text \<open>
  The items of a playlist are the JSON objects of the remote service, read as Python
  dicts. The model is typed by the fields the deduplicator reads: an item is \<open>None\<close> or
  a dict whose \<open>'track'\<close> is missing, \<open>None\<close> or empty (all three are skipped by the same
  test, and are \<open>item_track = None\<close> here) or a track object; a track object has the keys
  \<open>'id'\<close>, \<open>'name'\<close> and \<open>'artists'\<close> that the code reads with \<open>track[...]\<close>, and
  possibly \<open>'uri'\<close>. An id or uri may be null (\<open>None\<close>); \<open>tr_artists\<close> holds the
  \<open>'name'\<close> of each artist object.
\<close>

record track_object =
  tr_id :: "string option"
  tr_name :: string
  tr_artists :: "string list"
  tr_uri :: "string option"

record playlist_item =
  item_track :: "track_object option"

text \<open>The value stored in \<open>track_ids\<close> for the first occurrence of a track id.\<close>

record track_info =
  info_position :: int
  info_name :: string
  info_artists :: "string list"

text \<open>\<open>enumerate(xs)\<close>: the elements paired with their positions 0, 1, 2, ...\<close>

definition py_enumerate :: "'a list \<Rightarrow> (int \<times> 'a) list" where
  "py_enumerate xs = zip (map int [0..<length xs]) xs"

text \<open>
  The module never binds its \<open>logger\<close>: it defines \<open>setup_logging\<close> and never assigns the
  result at module level, and \<open>main\<close> assigns it to a local variable of its own
  (\<open>logger = setup_logging(args.log_file)\<close> with no \<open>global logger\<close>). The functions below
  read the module-level name, so they take its state as their first parameter; in every
  run of the script it is \<open>Unbound\<close>.

  \<open>find_duplicates\<close>. The loop \<open>for position, item in enumerate(tracks)\<close> runs over the
  state \<open>(track_ids, duplicates)\<close>. \<open>track_ids\<close> is a dict keyed by track id, kept as an
  association list in insertion order; \<open>track_id in track_ids\<close> is membership among its
  keys. The branch of a duplicate calls \<open>logger.debug\<close> before it appends the position,
  and \<open>logger.info\<close> is called after the loop, before \<open>return track_ids, duplicates\<close>.
\<close>

fun find_duplicates_loop ::
  "global_name \<Rightarrow> (int \<times> playlist_item option) list
     \<Rightarrow> (string option \<times> track_info) list \<times> int list
     \<Rightarrow> py_error + (string option \<times> track_info) list \<times> int list" where
  "find_duplicates_loop logger [] (track_ids, duplicates) = Inr (track_ids, duplicates)"
| "find_duplicates_loop logger ((position, item) # rest) (track_ids, duplicates) =
     (case item of
        None \<Rightarrow> find_duplicates_loop logger rest (track_ids, duplicates)
      | Some it \<Rightarrow>
          (case item_track it of
             None \<Rightarrow> find_duplicates_loop logger rest (track_ids, duplicates)
           | Some track \<Rightarrow>
               if tr_id track \<in> fst ` set track_ids
               then with_global logger
                      (find_duplicates_loop logger rest (track_ids, duplicates @ [position]))
               else find_duplicates_loop logger rest
                      (track_ids @ [(tr_id track,
                         \<lparr>info_position = position, info_name = tr_name track,
                          info_artists = tr_artists track\<rparr>)], duplicates)))"

definition find_duplicates ::
  "global_name \<Rightarrow> playlist_item option list
     \<Rightarrow> py_error + (string option \<times> track_info) list \<times> int list" where
  "find_duplicates logger tracks =
     (case find_duplicates_loop logger (py_enumerate tracks) ([], []) of
        Inl e \<Rightarrow> Inl e
      | Inr (track_ids, duplicates) \<Rightarrow> with_global logger (Inr (track_ids, duplicates)))"

text \<open>
  For stating the claims: the track info carried by position \<open>p\<close> (none when the position
  is out of range, the item is \<open>None\<close> or the item has no track), whether position \<open>q\<close>
  carries track info with id \<open>i\<close>, and whether position \<open>p\<close> repeats the id of an earlier
  position.
\<close>

definition track_at :: "playlist_item option list \<Rightarrow> nat \<Rightarrow> track_object option" where
  "track_at tracks p =
     (if p < length tracks
      then (case tracks ! p of None \<Rightarrow> None | Some it \<Rightarrow> item_track it)
      else None)"

definition carries_id :: "playlist_item option list \<Rightarrow> nat \<Rightarrow> string option \<Rightarrow> bool" where
  "carries_id tracks q i \<longleftrightarrow> (\<exists>t. track_at tracks q = Some t \<and> tr_id t = i)"

definition repeats :: "playlist_item option list \<Rightarrow> nat \<Rightarrow> bool" where
  "repeats tracks p \<longleftrightarrow>
     (\<exists>t. track_at tracks p = Some t \<and> (\<exists>q < p. carries_id tracks q (tr_id t)))"

text \<open>
  \<open>remove_duplicates\<close>. A removal entry is the dict \<open>{"uri": track_uri, "positions": [pos]}\<close>.
\<close>

record removal =
  removal_uri :: string
  removal_positions :: "int list"

text \<open>
  The loop \<open>for pos in positions_to_remove\<close>. The guard is
  \<open>0 <= pos < len(tracks) and tracks[pos].get('track') and tracks[pos]['track'].get('uri')\<close>,
  evaluated left to right: \<open>tracks[pos].get\<close> raises AttributeError when the item is
  \<open>None\<close>, and the loop is not inside a \<open>try\<close>. A uri is truthy when it is a non-empty
  string.
\<close>

fun tracks_to_remove_loop ::
  "playlist_item option list \<Rightarrow> int list \<Rightarrow> removal list \<Rightarrow> py_error + removal list" where
  "tracks_to_remove_loop tracks [] tracks_to_remove = Inr tracks_to_remove"
| "tracks_to_remove_loop tracks (pos # rest) tracks_to_remove =
     (if 0 \<le> pos \<and> pos < int (length tracks) then
        (case tracks ! nat pos of
           None \<Rightarrow> Inl AttributeError
         | Some it \<Rightarrow>
             (case item_track it of
                None \<Rightarrow> tracks_to_remove_loop tracks rest tracks_to_remove
              | Some track \<Rightarrow>
                  (case tr_uri track of
                     None \<Rightarrow> tracks_to_remove_loop tracks rest tracks_to_remove
                   | Some uri \<Rightarrow>
                       if uri = [] then tracks_to_remove_loop tracks rest tracks_to_remove
                       else tracks_to_remove_loop tracks rest
                              (tracks_to_remove @
                                 [\<lparr>removal_uri = uri, removal_positions = [pos]\<rparr>]))))
      else tracks_to_remove_loop tracks rest tracks_to_remove)"

text \<open>
  The loop \<open>for batch in batches\<close>. The remote service is a parameter: \<open>api s batch\<close> is
  the call \<open>sp.playlist_remove_specific_occurrences_of_items(playlist_id, batch)\<close> in the
  remote state \<open>s\<close>; it gives whether the call returned (\<open>True\<close>) or raised an exception
  (\<open>False\<close>), and the new remote state. The state of the loop is \<open>(removed_count, s)\<close>; the
  result is what the function returns or raises, with the remote state it leaves.

  When the call returns, \<open>removed_count\<close> is increased and \<open>logger.info\<close> is called, still
  inside the \<open>try\<close>; when the call raises, the \<open>except Exception\<close> clause calls
  \<open>logger.error\<close>. With the logger unbound the first of these raises NameError, which is
  an \<open>Exception\<close> and so reaches the same \<open>except\<close> clause, whose \<open>logger.error\<close> raises
  NameError again, now outside any \<open>try\<close>: either way the function ends after the call.
\<close>

fun remove_batches ::
  "global_name \<Rightarrow> ('s \<Rightarrow> removal list \<Rightarrow> bool \<times> 's) \<Rightarrow> removal list list \<Rightarrow> nat \<times> 's
     \<Rightarrow> (py_error + nat) \<times> 's" where
  "remove_batches logger api [] (removed_count, s) = (Inr removed_count, s)"
| "remove_batches logger api (batch # rest) (removed_count, s) =
     (case api s batch of
        (True, s') \<Rightarrow>
          (case logger of
             Bound \<Rightarrow> remove_batches logger api rest (removed_count + length batch, s')
           | Unbound \<Rightarrow> (Inl NameError, s'))
      | (False, s') \<Rightarrow>
          (case logger of
             Bound \<Rightarrow> remove_batches logger api rest (removed_count, s')
           | Unbound \<Rightarrow> (Inl NameError, s')))"

text \<open>
  \<open>remove_duplicates\<close>. \<open>sorted(duplicate_positions, reverse=True)\<close> on integers is the
  ascending sort reversed. Both early returns \<open>return 0\<close> come after a call of the logger.
\<close>

definition remove_duplicates ::
  "global_name \<Rightarrow> ('s \<Rightarrow> removal list \<Rightarrow> bool \<times> 's) \<Rightarrow> 's \<Rightarrow> int list
     \<Rightarrow> playlist_item option list \<Rightarrow> (py_error + nat) \<times> 's" where
  "remove_duplicates logger api s duplicate_positions tracks =
     (if duplicate_positions = [] then (with_global logger (Inr 0), s)
      else
        (case tracks_to_remove_loop tracks (rev (sort duplicate_positions)) [] of
           Inl e \<Rightarrow> (Inl e, s)
         | Inr tracks_to_remove \<Rightarrow>
             if tracks_to_remove = [] then (with_global logger (Inr 0), s)
             else remove_batches logger api (chunks tracks_to_remove 100) (0, s)))"

text \<open>
  A remote service that keeps the list of the batches it has received, in order, as its
  state. Whether a call returns or raises is decided by \<open>outcome\<close> from the batches
  received before and the batch of the call, so every deterministic service is one of
  these.
\<close>

definition recording_api ::
  "(removal list list \<Rightarrow> removal list \<Rightarrow> bool) \<Rightarrow> removal list list \<Rightarrow> removal list
     \<Rightarrow> bool \<times> removal list list" where
  "recording_api outcome received batch = (outcome received batch, received @ [batch])"

text \<open>
  For stating the claims: a position that passes the guard of the loop, and a removal
  entry that pairs the uri stored at one position with exactly that position.
\<close>

definition removable :: "playlist_item option list \<Rightarrow> int \<Rightarrow> bool" where
  "removable tracks pos \<longleftrightarrow>
     0 \<le> pos \<and> (\<exists>t u. track_at tracks (nat pos) = Some t \<and> tr_uri t = Some u \<and> u \<noteq> [])"

definition entry_ok :: "playlist_item option list \<Rightarrow> removal \<Rightarrow> bool" where
  "entry_ok tracks e \<longleftrightarrow>
     (\<exists>pos. removal_positions e = [pos] \<and> 0 \<le> pos
        \<and> (\<exists>t. track_at tracks (nat pos) = Some t \<and> tr_uri t = Some (removal_uri e)))"

text \<open>A playlist and the answers of a remote service to run the deduplicator on.\<close>

definition demo_track :: "string \<Rightarrow> string \<Rightarrow> playlist_item option" where
  "demo_track i u =
     Some \<lparr>item_track = Some \<lparr>tr_id = Some i, tr_name = ''song'',
              tr_artists = [''band''], tr_uri = Some u\<rparr>\<rparr>"

definition demo_playlist :: "playlist_item option list" where
  "demo_playlist =
     [demo_track ''a'' ''uri:a'', None, demo_track ''b'' ''uri:b'', demo_track ''a'' ''uri:a'',
      Some \<lparr>item_track = None\<rparr>, demo_track ''b'' ''uri:b'']"

definition demo_outcome :: "removal list list \<Rightarrow> removal list \<Rightarrow> bool" where
  "demo_outcome received batch = True"
section \<open>spotify_playlist_backup.py: normalize_tracks\<close>

text \<open>
  The playlist items that \<open>normalize_tracks\<close> reads, typed by the keys it reads. A key
  read with \<open>.get(key)\<close> gives \<open>None\<close> both when it is missing and when its value is
  null: such a key is an \<open>option\<close>. \<open>i_track = None\<close> is an item without track info
  (\<open>'track'\<close> missing, null or empty: \<open>if not track\<close>), and \<open>t_artists\<close> is
  \<open>track.get('artists') or []\<close>. The two keys read with a default, \<open>track.get('album', {})\<close>
  and \<open>track.get('is_local', False)\<close>, give the default only when the key is missing, and
  \<open>None\<close> when its value is null: such a key is a \<open>json_key\<close>. Of an artist and an album
  only \<open>'id'\<close> and \<open>'name'\<close> are read.
\<close>

datatype 'a json_key = Missing | Null | Value 'a

record api_artist =
  artist_id :: "string option"
  artist_name :: "string option"

record api_album =
  album_id :: "string option"
  album_name :: "string option"

record api_external_urls =
  urls_spotify :: "string option"

record api_track =
  t_id :: "string option"
  t_uri :: "string option"
  t_name :: "string option"
  t_artists :: "api_artist list"
  t_album :: "api_album json_key"
  t_duration_ms :: "int option"
  t_is_local :: "bool json_key"
  t_external_urls :: "api_external_urls option"
  t_explicit :: "bool option"

record api_added_by =
  added_by_id :: "string option"

record api_item =
  i_track :: "api_track option"
  i_added_at :: "string option"
  i_added_by :: "api_added_by option"

text \<open>
  The normalized record: the dict that \<open>normalize_tracks\<close> appends for each item.
  \<open>{'id': ..., 'name': ...}\<close> is the shape of both an entry of \<open>'artists'\<close> and of
  \<open>'album'\<close>.
\<close>

record artist_ref =
  ref_id :: "string option"
  ref_name :: "string option"

record normalized_track =
  n_position :: int
  n_id :: "string option"
  n_uri :: "string option"
  n_name :: "string option"
  n_artists :: "artist_ref list"
  n_album :: "artist_ref option"
  n_duration_ms :: "int option"
  n_is_local :: "bool option"
  n_spotify_url :: "string option"
  n_added_at :: "string option"
  n_added_by :: "string option"
  n_explicit :: "bool option"
  n_available :: bool

text \<open>
  The body of \<open>for index, item in enumerate(items)\<close>. For a track whose \<open>'album'\<close> is
  null, \<open>track.get('album', {})\<close> is \<open>None\<close> and \<open>.get('id')\<close> on it raises AttributeError;
  nothing in the function catches it. \<open>'is_local'\<close> is \<open>False\<close> for an item without track
  info, and else what \<open>track.get('is_local', False)\<close> gives.
\<close>

definition normalize_item :: "int \<Rightarrow> api_item \<Rightarrow> py_error + normalized_track" where
  "normalize_item index item =
     (case i_track item of
        None \<Rightarrow>
          Inr \<lparr>n_position = index, n_id = None, n_uri = None, n_name = Some ''Unavailable Track'',
               n_artists = [], n_album = None, n_duration_ms = None, n_is_local = Some False,
               n_spotify_url = None, n_added_at = i_added_at item, n_added_by = None,
               n_explicit = None, n_available = False\<rparr>
      | Some track \<Rightarrow>
          (case (case t_album track of
                   Missing \<Rightarrow> Inr \<lparr>ref_id = None, ref_name = None\<rparr>
                 | Null \<Rightarrow> Inl AttributeError
                 | Value album \<Rightarrow> Inr \<lparr>ref_id = album_id album, ref_name = album_name album\<rparr>) of
             Inl e \<Rightarrow> Inl e
           | Inr album \<Rightarrow>
               Inr \<lparr>n_position = index, n_id = t_id track, n_uri = t_uri track,
                    n_name = t_name track,
                    n_artists = map (\<lambda>artist. \<lparr>ref_id = artist_id artist,
                                                ref_name = artist_name artist\<rparr>) (t_artists track),
                    n_album = Some album,
                    n_duration_ms = t_duration_ms track,
                    n_is_local = (case t_is_local track of
                                    Missing \<Rightarrow> Some False | Null \<Rightarrow> None | Value b \<Rightarrow> Some b),
                    n_spotify_url = (case t_external_urls track of
                                       None \<Rightarrow> None | Some urls \<Rightarrow> urls_spotify urls),
                    n_added_at = i_added_at item,
                    n_added_by = (case i_added_by item of
                                    None \<Rightarrow> None | Some by \<Rightarrow> added_by_id by),
                    n_explicit = t_explicit track, n_available = True\<rparr>))"

text \<open>
  \<open>normalize_tracks\<close>: the loop appends one record for each item to \<open>normalized\<close>, and an
  exception in its body ends the function.
\<close>

fun normalize_loop ::
  "(int \<times> api_item) list \<Rightarrow> normalized_track list \<Rightarrow> py_error + normalized_track list" where
  "normalize_loop [] normalized = Inr normalized"
| "normalize_loop ((index, item) # rest) normalized =
     (case normalize_item index item of
        Inl e \<Rightarrow> Inl e
      | Inr entry \<Rightarrow> normalize_loop rest (normalized @ [entry]))"

definition normalize_tracks :: "api_item list \<Rightarrow> py_error + normalized_track list" where
  "normalize_tracks items = normalize_loop (py_enumerate items) []"

text \<open>
  Items to run \<open>normalize_tracks\<close> on: \<open>demo_items\<close>, whose second item has no track
  info, and \<open>null_album_items\<close>, whose second item is a track with \<open>'album': null\<close>.
\<close>

definition demo_item :: "string \<Rightarrow> api_item" where
  "demo_item i =
     \<lparr>i_track = Some \<lparr>t_id = Some i, t_uri = Some (''spotify:track:'' @ i), t_name = Some ''song'',
          t_artists = [\<lparr>artist_id = Some ''q'', artist_name = Some ''band''\<rparr>],
          t_album = Value \<lparr>album_id = Some ''r'', album_name = Some ''record''\<rparr>,
          t_duration_ms = Some 1000, t_is_local = Missing, t_external_urls = None,
          t_explicit = Some False\<rparr>,
      i_added_at = Some ''2024'', i_added_by = None\<rparr>"

definition demo_items :: "api_item list" where
  "demo_items =
     [demo_item ''a'', \<lparr>i_track = None, i_added_at = None, i_added_by = None\<rparr>, demo_item ''b'']"

definition null_album_items :: "api_item list" where
  "null_album_items =
     [demo_item ''a'',
      \<lparr>i_track = Some \<lparr>t_id = Some ''b'', t_uri = Some ''spotify:track:b'', t_name = Some ''song'',
           t_artists = [], t_album = Null, t_duration_ms = Some 1000, t_is_local = Value True,
           t_external_urls = None, t_explicit = None\<rparr>,
       i_added_at = Some ''2024'', i_added_by = None\<rparr>,
      demo_item ''c'']"
section \<open>Pagination: fetch_playlist_tracks and get_playlist_tracks\<close>

text \<open>
  A response page of the remote service: its \<open>'items'\<close> and its \<open>'next'\<close> field, which is
  null or the address of the following page. \<open>if response.get('next')\<close> and
  \<open>while results['next']\<close> test that it is neither null nor empty.
\<close>

record 'a page =
  page_items :: "'a list"
  page_next :: "string option"

definition has_next :: "'a page \<Rightarrow> bool" where
  "has_next response \<longleftrightarrow> (case page_next response of None \<Rightarrow> False | Some url \<Rightarrow> url \<noteq> [])"

text \<open>
  The requests the code makes of the client: \<open>sp.playlist_items(playlist_id, limit=limit,
  offset=offset)\<close> is \<open>Playlist_items (Some (limit, offset))\<close>, \<open>sp.playlist_items(playlist_id)\<close>
  with the client's defaults is \<open>Playlist_items None\<close>, and \<open>sp.next(results)\<close>, which asks
  for the page that the \<open>'next'\<close> field of \<open>results\<close> addresses, is \<open>Next results\<close>.
\<close>

datatype 'a request = Playlist_items "(nat \<times> nat) option" | Next "'a page"

text \<open>
  Both loops run against the sequence of responses that the remote service gives, one
  response for each request in turn, and they record the requests they make. A loop that
  has used up the responses and still asks for a page has not returned: that is \<open>None\<close>.

  \<open>fetch_playlist_tracks\<close> (spotify_playlist_backup.py): \<open>while True\<close>, with
  \<open>limit = 100\<close> and \<open>offset\<close> starting at 0.
\<close>

fun fetch_playlist_tracks_loop ::
  "'a page list \<Rightarrow> nat \<Rightarrow> nat \<Rightarrow> 'a list \<Rightarrow> 'a request list
     \<Rightarrow> ('a list \<times> 'a request list) option" where
  "fetch_playlist_tracks_loop [] limit offset items requests = None"
| "fetch_playlist_tracks_loop (response # rest) limit offset items requests =
     (if has_next response
      then fetch_playlist_tracks_loop rest limit (offset + limit)
             (items @ page_items response) (requests @ [Playlist_items (Some (limit, offset))])
      else Some (items @ page_items response,
                 requests @ [Playlist_items (Some (limit, offset))]))"

definition fetch_playlist_tracks :: "'a page list \<Rightarrow> ('a list \<times> 'a request list) option" where
  "fetch_playlist_tracks responses = fetch_playlist_tracks_loop responses 100 0 [] []"

text \<open>
  \<open>get_playlist_tracks\<close> (spotify_playlist_deduplicator.py): the first page, then
  \<open>while results['next']: results = sp.next(results); tracks.extend(results['items'])\<close>.
  After the loop the function calls \<open>logger.info\<close>, and then has \<open>return tracks\<close>:
  \<open>logger\<close> is the module-level name of the deduplicator, which the module never binds.
  The result is what the function returns or raises, with the requests it has made.
\<close>

fun get_playlist_tracks_loop ::
  "'a page list \<Rightarrow> 'a page \<Rightarrow> 'a list \<Rightarrow> 'a request list
     \<Rightarrow> ('a list \<times> 'a request list) option" where
  "get_playlist_tracks_loop responses results tracks requests =
     (if has_next results then
        (case responses of
           [] \<Rightarrow> None
         | response # rest \<Rightarrow>
             get_playlist_tracks_loop rest response (tracks @ page_items response)
               (requests @ [Next results]))
      else Some (tracks, requests))"

definition get_playlist_tracks ::
  "global_name \<Rightarrow> 'a page list \<Rightarrow> ((py_error + 'a list) \<times> 'a request list) option" where
  "get_playlist_tracks logger responses =
     (case responses of
        [] \<Rightarrow> None
      | results # rest \<Rightarrow>
          (case get_playlist_tracks_loop rest results (page_items results) [Playlist_items None] of
             None \<Rightarrow> None
           | Some (tracks, requests) \<Rightarrow> Some (with_global logger (Inr tracks), requests)))"

text \<open>
  A finite sequence of response pages whose last page has an empty \<open>'next'\<close> field, and
  no page before it has.
\<close>

definition page_sequence :: "'a page list \<Rightarrow> bool" where
  "page_sequence pages \<longleftrightarrow>
     pages \<noteq> [] \<and> \<not> has_next (last pages) \<and> (\<forall>p \<in> set (butlast pages). has_next p)"

text \<open>Two pages to run the loops on.\<close>

definition demo_pages :: "nat page list" where
  "demo_pages =
     [\<lparr>page_items = [1, 2], page_next = Some ''https://remote/next-page''\<rparr>,
      \<lparr>page_items = [3], page_next = None\<rparr>]"

section \<open>spotify_playlist_adder.py\<close>

text \<open>
  \<open>urlparse\<close> is a function of the Python standard library (\<open>urllib.parse\<close>), not of
  the repository: the functions of the script take it as the parameter \<open>urlparse\<close>, which
  gives the two attributes that \<open>is_spotify_url\<close> reads, or the exception it raises.
\<close>

record parsed_url =
  url_netloc :: string
  url_path :: string

text \<open>
  \<open>urlparse_py\<close> follows the source of the library (CPython 3.11) for these two
  attributes, to run the script on concrete paths: leading control characters and spaces
  are dropped and tabs and line ends removed, a scheme is split off before the first
  \<open>:\<close>, the netloc is what follows \<open>//\<close> up to the first \<open>/\<close>, \<open>?\<close> or \<open>#\<close>,
  an unmatched square bracket in the netloc raises ValueError, and the path ends before
  the fragment, the query and, for the schemes of \<open>uses_params\<close>, the parameters. The
  library's validation of the text between matched square brackets is the parameter
  \<open>bracketed_host_ok\<close>. Its check of a netloc that is not ASCII, which raises for no
  netloc of code points below 256, is left out.
\<close>

definition ascii_letter :: "char \<Rightarrow> bool" where
  "ascii_letter c \<longleftrightarrow> c \<in> set ''abcdefghijklmnopqrstuvwxyzABCDEFGHIJKLMNOPQRSTUVWXYZ''"

definition scheme_chars :: string where
  "scheme_chars = ''abcdefghijklmnopqrstuvwxyzABCDEFGHIJKLMNOPQRSTUVWXYZ0123456789+-.''"

definition ascii_lower :: "char \<Rightarrow> char" where
  "ascii_lower c =
     (case map_of (zip ''ABCDEFGHIJKLMNOPQRSTUVWXYZ'' ''abcdefghijklmnopqrstuvwxyz'') c of
        None \<Rightarrow> c | Some l \<Rightarrow> l)"

definition uses_params :: "string list" where
  "uses_params = ['''', ''ftp'', ''hdl'', ''prospero'', ''http'', ''imap'', ''https'', ''shttp'',
     ''rtsp'', ''rtsps'', ''rtspu'', ''sip'', ''sips'', ''mms'', ''sftp'', ''tel'']"

definition split_scheme :: "string \<Rightarrow> string \<times> string" where
  "split_scheme url =
     (case split_first '':'' url of
        None \<Rightarrow> ([], url)
      | Some (front, back) \<Rightarrow>
          if front \<noteq> [] \<and> ascii_letter (hd front) \<and> (\<forall>c \<in> set front. c \<in> set scheme_chars)
          then (map ascii_lower front, back) else ([], url))"

definition splitnetloc :: "string \<Rightarrow> string \<times> string" where
  "splitnetloc url =
     (let rest = drop 2 url;
          netloc = takeWhile (\<lambda>c. c \<notin> set ''/?#'') rest
      in (netloc, drop (length netloc) rest))"

definition splitparams :: "string \<Rightarrow> string" where
  "splitparams url =
     (let tail = rev (takeWhile (\<lambda>c. c \<noteq> CHR ''/'') (rev url));
          head = take (length url - length tail) url
      in if CHR '';'' \<in> set tail then head @ takeWhile (\<lambda>c. c \<noteq> CHR '';'') tail
         else url)"

definition urlparse_py :: "(string \<Rightarrow> bool) \<Rightarrow> string \<Rightarrow> py_error + parsed_url" where
  "urlparse_py bracketed_host_ok url0 =
     (let url1 = dropWhile (\<lambda>c. (of_char c :: nat) \<le> 32) url0;
          url2 = filter (\<lambda>c. c \<notin> set [CHR 0x09, CHR 0x0D, CHR 0x0A]) url1;
          (scheme, url3) = split_scheme url2;
          (netloc, url4) = (if take 2 url3 = ''//'' then splitnetloc url3 else ([], url3))
      in if (CHR ''['' \<in> set netloc \<and> CHR '']'' \<notin> set netloc)
            \<or> (CHR '']'' \<in> set netloc \<and> CHR ''['' \<notin> set netloc)
         then Inl ValueError
         else if CHR ''['' \<in> set netloc \<and> CHR '']'' \<in> set netloc
                 \<and> \<not> bracketed_host_ok
                       (takeWhile (\<lambda>c. c \<noteq> CHR '']'') (drop 1 (dropWhile (\<lambda>c. c \<noteq> CHR ''['') netloc)))
         then Inl ValueError
         else
           (let url5 = takeWhile (\<lambda>c. c \<noteq> CHR ''#'') url4;
                url6 = takeWhile (\<lambda>c. c \<noteq> CHR ''?'') url5;
                path = (if scheme \<in> set uses_params \<and> CHR '';'' \<in> set url6
                        then splitparams url6 else url6)
            in Inr \<lparr>url_netloc = netloc, url_path = path\<rparr>))"

text \<open>
  \<open>is_spotify_url\<close>. \<open>urlparse\<close> of a value that is not a string raises AttributeError.
\<close>

definition is_spotify_url :: "(string \<Rightarrow> py_error + parsed_url) \<Rightarrow> pyval \<Rightarrow> py_error + bool" where
  "is_spotify_url urlparse url =
     (case url of
        PyInt i \<Rightarrow> Inl AttributeError
      | PyStr s \<Rightarrow>
          (case urlparse s of
             Inl e \<Rightarrow> Inl e
           | Inr parsed \<Rightarrow>
               Inr (url_netloc parsed = ''open.spotify.com'' \<and> py_contains ''track'' (url_path parsed))))"

text \<open>
  The host of a parsed URL, as the attribute \<open>hostname\<close> of the library's result gives
  it from the netloc (the empty string where the library has \<open>None\<close>): what follows the
  last \<open>@\<close>, up to the port's colon or, for a bracketed host, between the square
  brackets, with the ASCII letters before a zone identifier \<open>%\<close> in lower case.
  \<open>is_spotify_url\<close> does not read this attribute; it is here to state what the host of
  a URL is.
\<close>

definition url_hostname :: "string \<Rightarrow> string" where
  "url_hostname netloc =
     (let hostinfo = rev (takeWhile (\<lambda>c. c \<noteq> CHR ''@'') (rev netloc));
          hostname = (if CHR ''['' \<in> set hostinfo
                      then takeWhile (\<lambda>c. c \<noteq> CHR '']'')
                             (drop 1 (dropWhile (\<lambda>c. c \<noteq> CHR ''['') hostinfo))
                      else takeWhile (\<lambda>c. c \<noteq> CHR '':'') hostinfo)
      in map ascii_lower (takeWhile (\<lambda>c. c \<noteq> CHR ''%'') hostname)
           @ dropWhile (\<lambda>c. c \<noteq> CHR ''%'') hostname)"

text \<open>
  \<open>extract_track_id_from_url\<close>: \<open>re.search(r'track/([a-zA-Z0-9]+)', url)\<close>, the leftmost
  \<open>track/\<close> that is followed by an ASCII letter or digit, and the longest run of them.
\<close>

definition ascii_alnum :: "char \<Rightarrow> bool" where
  "ascii_alnum c \<longleftrightarrow>
     c \<in> set ''abcdefghijklmnopqrstuvwxyzABCDEFGHIJKLMNOPQRSTUVWXYZ0123456789''"

fun extract_track_id_from_url :: "string \<Rightarrow> string option" where
  "extract_track_id_from_url [] = None"
| "extract_track_id_from_url (c # cs) =
     (if prefix ''track/'' (c # cs) \<and> takeWhile ascii_alnum (drop 6 (c # cs)) \<noteq> []
      then Some (takeWhile ascii_alnum (drop 6 (c # cs)))
      else extract_track_id_from_url cs)"

text \<open>
  \<open>os.path.basename\<close> and the first component of \<open>os.path.splitext\<close>, as on POSIX
  (\<open>posixpath\<close>): the extension starts at the last dot of the last path component,
  unless only dots precede it there.
\<close>

definition basename :: "string \<Rightarrow> string" where
  "basename p = rev (takeWhile (\<lambda>c. c \<noteq> CHR ''/'') (rev p))"

definition splitext_root :: "string \<Rightarrow> string" where
  "splitext_root p =
     (let name = basename p;
          stem = rev (drop 1 (dropWhile (\<lambda>c. c \<noteq> CHR ''.'') (rev name)))
      in if CHR ''.'' \<in> set name \<and> (\<exists>c \<in> set stem. c \<noteq> CHR ''.'')
         then take (length p - length name) p @ stem else p)"

text \<open>
  \<open>extract_search_query_from_song\<close>. \<open>get_truthy song k\<close> is the truth value of
  \<open>song.get(k)\<close>. \<open>os.path.basename\<close> raises TypeError for a path that is not a string.
\<close>

definition get_truthy :: "song \<Rightarrow> string \<Rightarrow> bool" where
  "get_truthy song k = (case map_of song k of None \<Rightarrow> False | Some v \<Rightarrow> py_truthy v)"

definition extract_search_query_from_song :: "song \<Rightarrow> py_error + string" where
  "extract_search_query_from_song song =
     (if get_truthy song ''artist'' \<and> get_truthy song ''title'' then
        (case (map_of song ''title'', map_of song ''artist'') of
           (Some title, Some artist) \<Rightarrow>
             Inr (''track:'' @ py_format title @ '' artist:'' @ py_format artist)
         | _ \<Rightarrow> Inl KeyError)
      else
        (case map_of song ''path'' of
           None \<Rightarrow> Inr []
         | Some file_path \<Rightarrow>
             if \<not> py_truthy file_path then Inr []
             else
               (case file_path of
                  PyInt i \<Rightarrow> Inl TypeError
                | PyStr path \<Rightarrow>
                    (let filename = basename path;
                         filename_without_ext = splitext_root filename
                     in case py_split1 '' - '' filename_without_ext of
                          [artist, title] \<Rightarrow> Inr (''track:'' @ title @ '' artist:'' @ artist)
                        | _ \<Rightarrow> Inr filename_without_ext))))"

text \<open>
  The remote service. \<open>sp.search(q=query, type='track', limit=1)\<close> is the parameter
  \<open>search\<close>: in a remote state it gives the new state and the reply, which is the list
  of the ids of \<open>results['tracks']['items']\<close>, or \<open>Search_raises\<close> when the call or the
  reading of the reply raises (both end in the same \<open>except\<close> clause).
  \<open>sp.playlist_add_items(playlist_id, batch)\<close> is the parameter \<open>add\<close>, which gives
  whether the call returned. The calls made are recorded with their outcomes.
\<close>

datatype search_reply = Search_raises | Search_items "string list"

datatype api_call = Search_call string search_reply | Add_call "string list" bool

text \<open>
  The state of \<open>process_m3u_batch\<close>: its lists \<open>track_ids\<close> and \<open>failed_tracks\<close> (the fields \<open>st_track_ids\<close> and \<open>st_failed_tracks\<close>), the
  lines written to the failed-tracks file, the state of the remote service and the calls
  made so far.
\<close>

record 'r run =
  st_track_ids :: "string list"
  st_failed_tracks :: "song list"
  st_failed_file :: "string list"
  st_remote :: 'r
  st_calls :: "api_call list"

text \<open>
  The three places that record a failed track, the search (the inner \<open>try\<close> block) and
  the body of \<open>for track in tracks\<close>. \<open>is_spotify_url(track_path)\<close> is outside the inner
  \<open>try\<close>: an exception it raises leaves the loop and the function. The counter
  \<open>count\<close> and \<open>rate_limit\<close>, which only decide when to sleep, are left out
  (\<open>rate_limit\<close> keeps its default 100 in every call of the repository).
\<close>

definition track_failed :: "'r run \<Rightarrow> song \<Rightarrow> pyval \<Rightarrow> 'r run" where
  "track_failed st track track_path =
     st\<lparr>st_failed_file := st_failed_file st @ [py_format track_path @ [CHR 0x0A]],
        st_failed_tracks := st_failed_tracks st @ [track]\<rparr>"

definition search_for_track ::
  "('r \<Rightarrow> string \<Rightarrow> search_reply \<times> 'r) \<Rightarrow> 'r run \<Rightarrow> song \<Rightarrow> pyval \<Rightarrow> 'r run" where
  "search_for_track search st track track_path =
     (case extract_search_query_from_song track of
        Inl e \<Rightarrow> track_failed st track track_path
      | Inr query \<Rightarrow>
          if query = [] then track_failed st track track_path
          else
            (case search (st_remote st) query of
               (reply, r') \<Rightarrow>
                 (let st' = st\<lparr>st_remote := r', st_calls := st_calls st @ [Search_call query reply]\<rparr>
                  in case reply of
                       Search_raises \<Rightarrow> track_failed st' track track_path
                     | Search_items [] \<Rightarrow> track_failed st' track track_path
                     | Search_items (track_id # _) \<Rightarrow>
                         st'\<lparr>st_track_ids := st_track_ids st' @ [track_id]\<rparr>)))"

definition process_track ::
  "(string \<Rightarrow> py_error + parsed_url) \<Rightarrow> ('r \<Rightarrow> string \<Rightarrow> search_reply \<times> 'r)
     \<Rightarrow> 'r run \<Rightarrow> song \<Rightarrow> py_error + 'r run" where
  "process_track urlparse search st track =
     (let track_path = (case map_of track ''path'' of None \<Rightarrow> PyStr [] | Some v \<Rightarrow> v)
      in case is_spotify_url urlparse track_path of
           Inl e \<Rightarrow> Inl e
         | Inr True \<Rightarrow>
             (case extract_track_id_from_url (py_format track_path) of
                Some track_id \<Rightarrow> Inr (st\<lparr>st_track_ids := st_track_ids st @ [track_id]\<rparr>)
              | None \<Rightarrow> Inr (search_for_track search st track track_path))
         | Inr False \<Rightarrow> Inr (search_for_track search st track track_path))"

fun resolve_tracks ::
  "(string \<Rightarrow> py_error + parsed_url) \<Rightarrow> ('r \<Rightarrow> string \<Rightarrow> search_reply \<times> 'r)
     \<Rightarrow> song list \<Rightarrow> 'r run \<Rightarrow> py_error + 'r run" where
  "resolve_tracks urlparse search [] st = Inr st"
| "resolve_tracks urlparse search (track # rest) st =
     (case process_track urlparse search st track of
        Inl e \<Rightarrow> Inl e
      | Inr st' \<Rightarrow> resolve_tracks urlparse search rest st')"

text \<open>
  The loop \<open>for i in range(0, len(track_ids), 100)\<close> over the batches, on the state
  \<open>(successful, st)\<close>, and \<open>process_m3u_batch\<close> on the text of the batch file. The
  result is the returned triple, with the final state.
\<close>

fun add_batches ::
  "('r \<Rightarrow> string list \<Rightarrow> bool \<times> 'r) \<Rightarrow> string list list \<Rightarrow> nat \<times> 'r run \<Rightarrow> nat \<times> 'r run" where
  "add_batches add [] (successful, st) = (successful, st)"
| "add_batches add (batch # rest) (successful, st) =
     (case add (st_remote st) batch of
        (ok, r') \<Rightarrow>
          add_batches add rest
            (if ok then successful + length batch else successful,
             st\<lparr>st_remote := r', st_calls := st_calls st @ [Add_call batch ok]\<rparr>))"

definition process_m3u_batch ::
  "(string \<Rightarrow> py_error + parsed_url) \<Rightarrow> ('r \<Rightarrow> string \<Rightarrow> search_reply \<times> 'r)
     \<Rightarrow> ('r \<Rightarrow> string list \<Rightarrow> bool \<times> 'r) \<Rightarrow> 'r \<Rightarrow> string
     \<Rightarrow> py_error + (nat \<times> nat \<times> song list) \<times> 'r run" where
  "process_m3u_batch urlparse search add r file_text =
     (let tracks = parse_m3u file_text;
          st0 = \<lparr>st_track_ids = [], st_failed_tracks = [], st_failed_file = [], st_remote = r, st_calls = []\<rparr>
      in case resolve_tracks urlparse search tracks st0 of
           Inl e \<Rightarrow> Inl e
         | Inr st1 \<Rightarrow>
             (case add_batches add (chunks (st_track_ids st1) 100) (0, st1) of
                (successful, st2) \<Rightarrow>
                  Inr ((successful, length (st_failed_tracks st2), st_failed_tracks st2), st2)))"

text \<open>
  For stating the claims: the batches of the add calls in a list of calls, the number
  of identifiers in the add calls that succeeded, and the two kinds of calls.
\<close>

definition added_batches :: "api_call list \<Rightarrow> string list list" where
  "added_batches cs = concat (map (\<lambda>c. case c of Add_call b ok \<Rightarrow> [b] | _ \<Rightarrow> []) cs)"

definition added_count :: "api_call list \<Rightarrow> nat" where
  "added_count cs = sum_list (map (\<lambda>c. case c of Add_call b ok \<Rightarrow> if ok then length b else 0 | _ \<Rightarrow> 0) cs)"

definition is_search :: "api_call \<Rightarrow> bool" where
  "is_search c = (case c of Search_call q r \<Rightarrow> True | _ \<Rightarrow> False)"

definition is_add :: "api_call \<Rightarrow> bool" where
  "is_add c = (case c of Add_call b ok \<Rightarrow> True | _ \<Rightarrow> False)"

text \<open>
  A remote service that keeps the list of the requests it has received, in order, as its
  state: the query of each search and the batch of each add call. What a search replies
  and whether an add call returns are decided by \<open>reply\<close> and \<open>accept\<close> from the requests
  received before and the request itself, so every deterministic service is one of
  these.
\<close>

datatype remote_request = Search_request string | Add_request "string list"

definition recording_search ::
  "(remote_request list \<Rightarrow> string \<Rightarrow> search_reply) \<Rightarrow> remote_request list \<Rightarrow> string
     \<Rightarrow> search_reply \<times> remote_request list" where
  "recording_search reply received query = (reply received query, received @ [Search_request query])"


text \<open>
Remote services, track records and batch files to run the script on.
\<close>

definition demo_search :: "nat \<Rightarrow> string \<Rightarrow> search_reply \<times> nat" where
  "demo_search r query =
     (if query = ''track:Title artist:Artist'' then (Search_items [''id1'', ''id2''], Suc r)
      else if query = ''boom'' then (Search_raises, Suc r)
      else (Search_items [], Suc r))"

definition demo_add :: "nat \<Rightarrow> string list \<Rightarrow> bool \<times> nat" where
  "demo_add r batch = (True, Suc r)"

definition demo_reply :: "remote_request list \<Rightarrow> string \<Rightarrow> search_reply" where
  "demo_reply received query =
     (if query = ''track:Title artist:Artist'' then Search_items [''id1'', ''id2'']
      else if query = ''boom'' then Search_raises
      else Search_items [])"



definition bare_song :: "string \<Rightarrow> song" where
  "bare_song p = [(''path'', PyStr p), (''title'', PyStr []), (''artist'', PyStr []),
     (''duration'', PyInt 0), (''metadata'', PyStr [])]"




definition crash_batch :: string where
  "crash_batch = ''#EXTINF:123,Artist - Title'' @ [CHR 0x0A] @ ''/music/a.mp3'' @ [CHR 0x0A]
      @ ''http://['' @ [CHR 0x0A] @ ''/music/b.mp3'' @ [CHR 0x0A]"

definition port_url :: string where
  "port_url = ''https://open.spotify.com:443/track/abc123''"
section \<open>Lemmas\<close>

subsection \<open>Facts about chunking\<close>

lemma py_range_Nil [simp]: "stop \<le> start \<Longrightarrow> py_range start stop step = []"
  by (simp add: py_range.simps)

lemma py_range_step: "0 < step \<Longrightarrow> start < stop \<Longrightarrow>
    py_range start stop step = start # py_range (start + step) stop step"
  by (subst py_range.simps) simp

lemma concat_chunks_from:
  "0 < n \<Longrightarrow> concat (map (\<lambda>i. py_slice xs i (i + n)) (py_range i (length xs) n)) = drop i xs"
proof (induction i "length xs" n rule: py_range.induct)
  case (1 start step)
  show ?case
  proof (cases "start < length xs")
    case True
    have "drop start xs = take step (drop start xs) @ drop (start + step) xs"
      by (metis append_take_drop_id drop_drop add.commute)
    with 1 True show ?thesis
      by (simp add: py_range_step py_slice_def)
  next
    case False
    then show ?thesis by simp
  qed
qed

lemma concat_chunks: "0 < n \<Longrightarrow> concat (chunks xs n) = xs"
  using concat_chunks_from [of n xs 0] by (simp add: chunks_def)

lemma py_range_nth:
  "0 < step \<Longrightarrow> k < length (py_range start stop step) \<Longrightarrow>
     py_range start stop step ! k = start + k * step"
proof (induction start stop step arbitrary: k rule: py_range.induct)
  case (1 start stop step)
  show ?case
  proof (cases "start < stop")
    case True
    with 1 show ?thesis
      by (cases k) (simp_all add: py_range_step)
  next
    case False
    with 1 show ?thesis by simp
  qed
qed

lemma py_range_bound:
  "0 < step \<Longrightarrow> i \<in> set (py_range start stop step) \<Longrightarrow> i < stop"
proof (induction start stop step rule: py_range.induct)
  case (1 start stop step)
  show ?case
  proof (cases "start < stop")
    case True
    with 1 show ?thesis
      by (auto simp: py_range_step)
  next
    case False
    with 1 show ?thesis by simp
  qed
qed

lemma py_range_last_close:
  "0 < step \<Longrightarrow> k < length (py_range start stop step) \<Longrightarrow>
     Suc k < length (py_range start stop step) \<longleftrightarrow> start + (Suc k) * step < stop"
proof (induction start stop step arbitrary: k rule: py_range.induct)
  case (1 start stop step)
  show ?case
  proof (cases "start < stop")
    case True
    note lt = this
    show ?thesis
    proof (cases k)
      case 0
      with 1 lt show ?thesis
        by (cases "start + step < stop") (simp_all add: py_range_step)
    next
      case (Suc j)
      with 1 lt show ?thesis
        by (simp add: py_range_step add.assoc)
    qed
  next
    case False
    with 1 show ?thesis by simp
  qed
qed

lemma chunks_nth:
  "0 < n \<Longrightarrow> k < length (chunks xs n) \<Longrightarrow> chunks xs n ! k = take n (drop (k * n) xs)"
  by (simp add: chunks_def py_range_nth py_slice_def)

lemma chunks_start_in_range:
  assumes n: "0 < n" and k: "k < length (chunks xs n)"
  shows "k * n < length xs"
proof -
  from k have k': "k < length (py_range 0 (length xs) n)"
    by (simp add: chunks_def)
  then have "py_range 0 (length xs) n ! k \<in> set (py_range 0 (length xs) n)"
    by (rule nth_mem)
  from py_range_bound [OF n this] py_range_nth [OF n k'] show ?thesis
    by simp
qed

lemma chunks_length_le:
  "0 < n \<Longrightarrow> b \<in> set (chunks xs n) \<Longrightarrow> length b \<le> n \<and> 1 \<le> length b"
proof -
  assume n: "0 < n" and b: "b \<in> set (chunks xs n)"
  then obtain k where k: "k < length (chunks xs n)" and bk: "b = chunks xs n ! k"
    by (auto simp: in_set_conv_nth)
  from chunks_start_in_range [OF n k] chunks_nth [OF n k] bk n
  show ?thesis by simp
qed

lemma chunks_length_full:
  assumes n: "0 < n" and k: "Suc k < length (chunks xs n)"
  shows "length (chunks xs n ! k) = n"
proof -
  from k have k': "k < length (py_range 0 (length xs) n)" and
      sk: "Suc k < length (py_range 0 (length xs) n)"
    by (simp_all add: chunks_def)
  from py_range_last_close [OF n k'] sk have "Suc k * n < length xs"
    by simp
  moreover from k have "k < length (chunks xs n)" by simp
  ultimately show ?thesis
    using chunks_nth [OF n, of k xs] by simp
qed

lemma chunks_Nil [simp]: "chunks [] n = []"
  by (simp add: chunks_def)

subsection \<open>The parser and the writer\<close>

lemma dropWhile_id: "xs \<noteq> [] \<Longrightarrow> \<not> P (hd xs) \<Longrightarrow> dropWhile P xs = xs"
  by (cases xs) simp_all

lemma strip_ends_id:
  "xs \<noteq> [] \<Longrightarrow> \<not> P (hd xs) \<Longrightarrow> \<not> P (last xs) \<Longrightarrow>
     rev (dropWhile P (rev (dropWhile P xs))) = xs"
  by (simp add: dropWhile_id hd_rev)

lemma strip_ends_snoc:
  assumes "P c"
  shows "rev (dropWhile P (rev (dropWhile P (xs @ [c])))) = rev (dropWhile P (rev (dropWhile P xs)))"
proof (cases "\<forall>x \<in> set xs. P x")
  case True
  then have d1: "dropWhile P xs = []" by simp
  from True assms have d2: "dropWhile P (xs @ [c]) = []" by simp
  show ?thesis unfolding d1 d2 by simp
next
  case False
  then have "dropWhile P (xs @ [c]) = dropWhile P xs @ [c]"
    by (auto simp: dropWhile_append)
  then show ?thesis using assms by simp
qed

lemma last_dropWhile: "dropWhile P xs \<noteq> [] \<Longrightarrow> last (dropWhile P xs) = last xs"
  by (metis last_appendR takeWhile_dropWhile_id)

lemma strip_ends_hd_last:
  assumes "rev (dropWhile P (rev (dropWhile P xs))) \<noteq> []"
  shows "\<not> P (hd (rev (dropWhile P (rev (dropWhile P xs)))))
       \<and> \<not> P (last (rev (dropWhile P (rev (dropWhile P xs)))))"
proof -
  let ?y = "dropWhile P xs" and ?z = "dropWhile P (rev (dropWhile P xs))"
  from assms have z: "?z \<noteq> []" by simp
  have y: "?y \<noteq> []"
  proof
    assume e: "?y = []"
    have "?z = []" unfolding e by simp
    with z show False by (rule notE)
  qed
  from z have "\<not> P (hd ?z)" by (rule hd_dropWhile)
  moreover have "last ?z = last (rev ?y)" using z by (rule last_dropWhile)
  moreover have "\<not> P (hd ?y)" using y by (rule hd_dropWhile)
  ultimately show ?thesis
    using z y by (simp add: hd_rev last_rev)
qed

lemma strip_ends_subset: "set (rev (dropWhile P (rev (dropWhile P xs)))) \<subseteq> set xs"
  by (auto dest!: set_dropWhileD)

lemma digit_cases: "k < 10 \<Longrightarrow> k \<in> {0, 1, 2, 3, 4, 5, 6, 7, 8, 9::nat}"
  by auto

lemma digit_char_simps:
  "digit_char 0 = CHR ''0''" "digit_char 1 = CHR ''1''" "digit_char 2 = CHR ''2''"
  "digit_char 3 = CHR ''3''" "digit_char 4 = CHR ''4''" "digit_char 5 = CHR ''5''"
  "digit_char 6 = CHR ''6''" "digit_char 7 = CHR ''7''" "digit_char 8 = CHR ''8''"
  "digit_char 9 = CHR ''9''"
  by (simp_all add: digit_char_def)

lemma digit_char_one: "digit_char (Suc 0) = CHR ''1''"
  by (simp add: digit_char_def)

lemma digit_char_props:
  assumes "k < 10"
  shows "is_digit (digit_char k)" "digit_value (digit_char k) = k"
    "\<not> int_isspace (digit_char k)" "\<not> py_isspace (digit_char k)"
    "digit_char k \<noteq> CHR ''-''" "digit_char k \<noteq> CHR ''+''" "digit_char k \<noteq> CHR '',''"
    "digit_char k \<noteq> CHR 0x0A" "digit_char k \<noteq> CHR 0x0D"
  using digit_cases [OF assms]
  by (auto simp: digit_char_simps digit_char_one is_digit_def digit_value_def
      int_isspace_def int_whitespace_def py_isspace_def py_whitespace_def)

lemma is_digit_props:
  assumes "is_digit c"
  shows "\<not> int_isspace c" "\<not> py_isspace c" "c \<noteq> CHR ''-''" "c \<noteq> CHR ''+''"
    "c \<noteq> CHR '',''" "c \<noteq> CHR 0x0A" "c \<noteq> CHR 0x0D"
  using assms
  by (auto simp: is_digit_def int_isspace_def int_whitespace_def py_isspace_def py_whitespace_def)

lemma minus_not_space: "\<not> int_isspace CHR ''-''" "\<not> py_isspace CHR ''-''"
  by (simp_all add: int_isspace_def int_whitespace_def py_isspace_def py_whitespace_def)

lemma nat_digits_chars: "c \<in> set (nat_digits n) \<Longrightarrow> is_digit c"
proof (induction n rule: nat_digits.induct)
  case (1 n)
  show ?case
  proof (cases "n < 10")
    case True
    with 1 show ?thesis by (simp add: nat_digits.simps [of n] digit_char_props)
  next
    case False
    with 1 have "c \<in> set (nat_digits (n div 10)) \<or> c = digit_char (n mod 10)"
      by (auto simp: nat_digits.simps [of n])
    then show ?thesis
    proof
      assume "c \<in> set (nat_digits (n div 10))"
      with 1 False show ?thesis by simp
    next
      assume "c = digit_char (n mod 10)"
      then show ?thesis by (simp add: digit_char_props)
    qed
  qed
qed

lemma nat_digits_nonempty: "nat_digits n \<noteq> []"
  by (simp add: nat_digits.simps [of n])

lemma hd_nat_digits: "is_digit (hd (nat_digits n))"
  using nat_digits_chars [of "hd (nat_digits n)" n] nat_digits_nonempty [of n] by simp

lemma last_nat_digits: "is_digit (last (nat_digits n))"
  using nat_digits_chars [of "last (nat_digits n)" n] nat_digits_nonempty [of n] by simp

lemma digits_value_digits:
  "\<forall>c \<in> set ds. is_digit c \<Longrightarrow>
     digits_value ds acc = Some (foldl (\<lambda>a c. 10 * a + digit_value c) acc ds)"
  by (induction ds arbitrary: acc) simp_all

lemma nat_digits_value: "foldl (\<lambda>a c. 10 * a + digit_value c) 0 (nat_digits n) = n"
proof (induction n rule: nat_digits.induct)
  case (1 n)
  show ?case
  proof (cases "n < 10")
    case True
    then show ?thesis by (simp add: nat_digits.simps [of n] digit_char_props)
  next
    case False
    with 1 show ?thesis
      by (simp add: nat_digits.simps [of n] digit_char_props)
  qed
qed

lemma unsigned_value_nat_digits: "unsigned_value (nat_digits n) = Some n"
proof -
  have all: "\<forall>c \<in> set (nat_digits n). is_digit c"
    using nat_digits_chars [of _ n] by blast
  obtain d ds where ds: "nat_digits n = d # ds"
    using nat_digits_nonempty [of n] by (cases "nat_digits n") auto
  with all have "is_digit d" by simp
  with ds digits_value_digits [OF all, of 0] nat_digits_value [of n] show ?thesis
    by (simp add: unsigned_value_def)
qed

lemma py_str_int_ends:
  "py_str_int i \<noteq> []" "\<not> int_isspace (hd (py_str_int i))" "\<not> int_isspace (last (py_str_int i))"
proof -
  show "py_str_int i \<noteq> []"
    by (simp add: py_str_int_def nat_digits_nonempty)
  show "\<not> int_isspace (hd (py_str_int i))"
    using is_digit_props(1) [OF hd_nat_digits]
    by (simp add: py_str_int_def minus_not_space)
  show "\<not> int_isspace (last (py_str_int i))"
    using is_digit_props(1) [OF last_nat_digits]
    by (simp add: py_str_int_def nat_digits_nonempty)
qed

lemma py_int_str_int: "py_int (py_str_int i) = Some i"
proof -
  have strip: "rev (dropWhile int_isspace (rev (dropWhile int_isspace (py_str_int i)))) = py_str_int i"
    using py_str_int_ends [of i] by (rule strip_ends_id)
  show ?thesis
  proof (cases "i < 0")
    case True
    then show ?thesis
      unfolding py_int_def strip
      by (simp add: py_str_int_def unsigned_value_nat_digits)
  next
    case False
    obtain d ds where ds: "nat_digits (nat i) = d # ds"
      using nat_digits_nonempty [of "nat i"] by (cases "nat_digits (nat i)") auto
    with hd_nat_digits [of "nat i"] have "is_digit d"
      by simp
    then have "d \<noteq> CHR ''-''" "d \<noteq> CHR ''+''"
      by (simp_all add: is_digit_props)
    with False ds unsigned_value_nat_digits [of "nat i"] show ?thesis
      unfolding py_int_def strip
      by (simp add: py_str_int_def)
  qed
qed

lemma py_str_int_chars:
  assumes "c \<in> set (py_str_int i)"
  shows "c \<noteq> CHR '','' \<and> c \<noteq> CHR 0x0A \<and> c \<noteq> CHR 0x0D \<and> \<not> py_isspace c"
proof -
  from assms have "c = CHR ''-'' \<or> is_digit c"
    by (auto simp: py_str_int_def dest: nat_digits_chars split: if_splits)
  then show ?thesis
    using is_digit_props [of c] minus_not_space by auto
qed

lemma read_lines_no_nl:
  "no_nl cur \<Longrightarrow> l \<in> set (read_lines s cur) \<Longrightarrow>
     no_nl l \<or> (\<exists>b. l = b @ [CHR 0x0A] \<and> no_nl b)"
  by (induction s cur rule: read_lines.induct)
    (auto simp: no_nl_def split: if_splits)

lemma py_isspace_nl [simp]: "py_isspace CHR 0x0A"
  by (simp add: py_isspace_def py_whitespace_def)

lemma py_strip_line_nl: "py_strip (b @ [CHR 0x0A]) = py_strip b"
  unfolding py_strip_def by (rule strip_ends_snoc) simp

lemma py_strip_subset: "set (py_strip s) \<subseteq> set s"
  unfolding py_strip_def by (rule strip_ends_subset)

lemma py_strip_no_nl:
  assumes "no_nl l \<or> (\<exists>b. l = b @ [CHR 0x0A] \<and> no_nl b)"
  shows "no_nl (py_strip l)"
  using assms py_strip_subset [of l] py_strip_subset
  by (fastforce simp: no_nl_def py_strip_line_nl)

lemma file_lines_no_nl:
  assumes "l \<in> set (file_lines text)"
  shows "no_nl (py_strip l)"
proof (rule py_strip_no_nl)
  have "no_nl []" by (simp add: no_nl_def)
  from read_lines_no_nl [OF this] assms
  show "no_nl l \<or> (\<exists>b. l = b @ [CHR 0x0A] \<and> no_nl b)"
    by (simp add: file_lines_def)
qed

lemma py_strip_ends:
  "py_strip s \<noteq> [] \<Longrightarrow> \<not> py_isspace (hd (py_strip s)) \<and> \<not> py_isspace (last (py_strip s))"
  unfolding py_strip_def by (rule strip_ends_hd_last)

lemma py_strip_written:
  "x \<noteq> [] \<Longrightarrow> \<not> py_isspace (hd x) \<Longrightarrow> \<not> py_isspace (last x) \<Longrightarrow>
     py_strip (x @ [CHR 0x0A]) = x"
  unfolding py_strip_line_nl unfolding py_strip_def by (rule strip_ends_id)

lemma read_lines_step:
  "c \<noteq> CHR 0x0A \<Longrightarrow> c \<noteq> CHR 0x0D \<Longrightarrow> xs \<noteq> [] \<Longrightarrow>
     read_lines (c # xs) cur = read_lines xs (cur @ [c])"
  by (cases xs) simp_all

lemma read_lines_nl: "read_lines (CHR 0x0A # rest) cur = (cur @ [CHR 0x0A]) # read_lines rest []"
  by (cases rest) simp_all

lemma read_lines_written:
  "no_nl l \<Longrightarrow> read_lines (l @ CHR 0x0A # rest) cur = (cur @ l @ [CHR 0x0A]) # read_lines rest []"
proof (induction l arbitrary: cur)
  case Nil
  show ?case by (simp add: read_lines_nl)
next
  case (Cons c l)
  then have "c \<noteq> CHR 0x0A" "c \<noteq> CHR 0x0D" "no_nl l"
    by (auto simp: no_nl_def)
  with Cons.IH [of "cur @ [c]"] show ?case
    by (simp add: read_lines_step)
qed

lemma split_first_Some: "split_first sep s = Some (a, b) \<Longrightarrow> s = a @ sep @ b"
proof (induction s arbitrary: a)
  case Nil
  then show ?case by simp
next
  case (Cons c cs)
  show ?case
  proof (cases "prefix sep (c # cs)")
    case True
    with Cons.prems show ?thesis
      by (auto simp: prefix_def)
  next
    case False
    with Cons.prems obtain a' where "split_first sep cs = Some (a', b)" "a = c # a'"
      by (auto split: option.splits)
    with Cons.IH [of a'] show ?thesis by simp
  qed
qed

lemma split_first_char:
  "c \<notin> set a \<Longrightarrow> split_first [c] (a @ c # b) = Some (a, b)"
  by (induction a) auto

lemma split_artist_title_Nil [simp]: "split_artist_title [] = ([], [])"
  by (simp add: split_artist_title_def py_contains_def)

lemma parse_extinf_shape:
  assumes "parse_extinf line = Some s"
  shows "\<exists>d ta. s = mk_song [] d ta \<and> set ta \<subseteq> set line \<and> (ta \<noteq> [] \<longrightarrow> last ta = last line)"
proof (cases "split_first '','' (drop 8 line)")
  case None
  with assms obtain d where "s = mk_song [] d []"
    by (auto simp: parse_extinf_def py_split1_def mk_song_def split: option.splits)
  then have "s = mk_song [] d [] \<and> set [] \<subseteq> set line \<and> ([] \<noteq> ([]::string) \<longrightarrow> last [] = last line)"
    by simp
  then show ?thesis by blast
next
  case (Some ab)
  obtain a ta where ab: "ab = (a, ta)" by (cases ab)
  from Some ab have "split_first '','' (drop 8 line) = Some (a, ta)"
    by simp
  from split_first_Some [OF this] have eq: "drop 8 line = a @ '','' @ ta" .
  from assms Some ab obtain d where s: "s = mk_song [] d ta"
    by (auto simp: parse_extinf_def py_split1_def mk_song_def split: option.splits prod.splits)
  have "set ta \<subseteq> set (drop 8 line)"
    unfolding eq by auto
  then have sub: "set ta \<subseteq> set line"
    using set_drop_subset [of 8 line] by blast
  have "last ta = last line" if "ta \<noteq> []"
  proof -
    from that have "last (drop 8 line) = last ta"
      unfolding eq by simp
    moreover have "drop 8 line \<noteq> []"
      unfolding eq by simp
    then have "last (drop 8 line) = last line"
      by simp
    ultimately show ?thesis by simp
  qed
  with s sub show ?thesis by blast
qed

lemma parse_extinf_written:
  "parse_extinf (''#EXTINF:'' @ py_str_int d @ '','' @ ta) = Some (mk_song [] d ta)"
proof -
  have "CHR '','' \<notin> set (py_str_int d)"
    using py_str_int_chars [of "CHR '',''" d] by blast
  then have "split_first '','' (py_str_int d @ CHR '','' # ta) = Some (py_str_int d, ta)"
    by (rule split_first_char)
  then show ?thesis
    by (simp add: parse_extinf_def py_split1_def py_int_str_int mk_song_def
        split: prod.splits)
qed

lemma good_path_not_directive: "\<not> prefix ''#'' p \<Longrightarrow> p \<noteq> ''#EXTM3U'' \<and> \<not> prefix ''#EXTINF:'' p"
  by (auto simp: prefix_def)

lemma update_path_mk_song [simp]: "AList.update ''path'' (PyStr p) (mk_song q d ta) = mk_song p d ta"
  by (simp add: mk_song_def)

lemma parse_step_inv:
  assumes nl: "no_nl (py_strip raw)"
    and songs: "\<forall>s \<in> set songs. good_song s"
    and cur: "pending_ok cur"
  shows "(\<forall>s \<in> set (fst (parse_step (songs, cur) raw)). good_song s)
       \<and> pending_ok (snd (parse_step (songs, cur) raw))"
proof -
  let ?line = "py_strip raw"
  show ?thesis
  proof (cases "?line = [] \<or> ?line = ''#EXTM3U''")
    case True
    with songs cur show ?thesis by auto
  next
    case False
    then have ne: "?line \<noteq> []" and nh: "?line \<noteq> ''#EXTM3U''" by simp_all
    from py_strip_ends [OF ne] have ends: "\<not> py_isspace (hd ?line)" "\<not> py_isspace (last ?line)"
      by simp_all
    show ?thesis
    proof (cases "prefix ''#EXTINF:'' ?line")
      case True
      have "pending_ok (parse_extinf ?line)"
      proof (cases "parse_extinf ?line")
        case None
        then show ?thesis by (simp add: pending_ok_def)
      next
        case (Some s)
        from parse_extinf_shape [OF this] obtain d ta where s: "s = mk_song [] d ta"
          and sub: "set ta \<subseteq> set ?line" and l: "ta \<noteq> [] \<longrightarrow> last ta = last ?line"
          by blast
        from sub nl have "no_nl ta" by (auto simp: no_nl_def)
        with l ends have "good_meta ta" by (auto simp: good_meta_def)
        with s Some show ?thesis by (auto simp: pending_ok_def)
      qed
      with True ne nh songs show ?thesis by simp
    next
      case notinf: False
      show ?thesis
      proof (cases "prefix ''#'' ?line")
        case True
        with notinf ne nh songs cur show ?thesis by simp
      next
        case False
        with ne ends nl have gp: "good_path ?line" by (simp add: good_path_def)
        show ?thesis
        proof (cases cur)
          case None
          have "good_meta []" by (simp add: good_meta_def no_nl_def)
          with gp have "good_song (mk_song ?line 0 [])"
            unfolding good_song_def by blast
          with None False notinf ne nh songs show ?thesis
            by (simp add: mk_song_def pending_ok_def)
        next
          case (Some c)
          with cur obtain d ta where c: "c = mk_song [] d ta" and gm: "good_meta ta"
            by (auto simp: pending_ok_def)
          from gp gm have "good_song (mk_song ?line d ta)"
            unfolding good_song_def by blast
          with Some c False notinf ne nh songs show ?thesis
            by (simp add: pending_ok_def)
        qed
      qed
    qed
  qed
qed

lemma parse_fold_inv:
  assumes "\<forall>l \<in> set ls. no_nl (py_strip l)"
    and "\<forall>s \<in> set songs. good_song s" and "pending_ok cur"
  shows "(\<forall>s \<in> set (fst (foldl parse_step (songs, cur) ls)). good_song s)
       \<and> pending_ok (snd (foldl parse_step (songs, cur) ls))"
  using assms
proof (induction ls arbitrary: songs cur)
  case Nil
  then show ?case by simp
next
  case (Cons l ls)
  obtain songs' cur' where step: "parse_step (songs, cur) l = (songs', cur')"
    by (cases "parse_step (songs, cur) l")
  from Cons.prems parse_step_inv [of l songs cur] step
  have "\<forall>s \<in> set songs'. good_song s" "pending_ok cur'"
    by simp_all
  with Cons.IH [of songs' cur'] Cons.prems(1) step show ?case
    by simp
qed

lemma parse_m3u_good: "s \<in> set (parse_m3u t) \<Longrightarrow> good_song s"
  using parse_fold_inv [of "file_lines t" "[]" None] file_lines_no_nl [of _ t]
  by (simp add: parse_m3u_def parse_lines_def pending_ok_def)

lemma write_song_mk_song: "write_song (mk_song p d ta) = Inr (concat (entry_lines p d ta))"
  by (simp add: write_song_def py_subscript_def mk_song_def py_truthy_def py_format_def
      entry_lines_def extinf_line_def)

lemma forget_duration_mk_song:
  "forget_duration (mk_song p d ta) = mk_song p (if ta = [] then 0 else d) ta"
  by (simp add: forget_duration_def mk_song_def)

lemma hash_not_space: "\<not> py_isspace CHR ''#''"
  by (simp add: py_isspace_def py_whitespace_def)

lemma extinf_line_props:
  assumes "good_meta ta" "ta \<noteq> []"
  shows "py_strip (extinf_line d ta @ [CHR 0x0A]) = extinf_line d ta"
    and "no_nl (extinf_line d ta)"
proof -
  have "extinf_line d ta \<noteq> []" "hd (extinf_line d ta) = CHR ''#''"
    "last (extinf_line d ta) = last ta"
    using assms by (simp_all add: extinf_line_def)
  with assms show "py_strip (extinf_line d ta @ [CHR 0x0A]) = extinf_line d ta"
    by (intro py_strip_written) (simp_all add: hash_not_space good_meta_def)
  have "no_nl (py_str_int d)"
    using py_str_int_chars [of _ d] by (auto simp: no_nl_def)
  with assms show "no_nl (extinf_line d ta)"
    by (auto simp: no_nl_def extinf_line_def good_meta_def)
qed

lemma parse_step_extinf_written:
  assumes "good_meta ta" "ta \<noteq> []"
  shows "parse_step (acc, cur) (extinf_line d ta @ [CHR 0x0A]) = (acc, Some (mk_song [] d ta))"
proof -
  have "prefix ''#EXTINF:'' (extinf_line d ta)" "extinf_line d ta \<noteq> ''#EXTM3U''"
    "extinf_line d ta \<noteq> []"
    by (simp_all add: extinf_line_def)
  moreover have "parse_extinf (extinf_line d ta) = Some (mk_song [] d ta)"
    unfolding extinf_line_def by (rule parse_extinf_written)
  ultimately show ?thesis
    by (simp add: extinf_line_props(1) [OF assms])
qed

lemma parse_step_path_written:
  assumes "good_path p"
  shows "parse_step (acc, Some (mk_song [] d ta)) (p @ [CHR 0x0A]) = (acc @ [mk_song p d ta], None)"
    and "parse_step (acc, None) (p @ [CHR 0x0A]) = (acc @ [mk_song p 0 []], None)"
proof -
  from assms have strip: "py_strip (p @ [CHR 0x0A]) = p"
    by (intro py_strip_written) (simp_all add: good_path_def)
  from assms have p: "p \<noteq> []" "\<not> prefix ''#'' p" "p \<noteq> ''#EXTM3U''" "\<not> prefix ''#EXTINF:'' p"
    using good_path_not_directive [of p] by (simp_all add: good_path_def)
  show "parse_step (acc, Some (mk_song [] d ta)) (p @ [CHR 0x0A]) = (acc @ [mk_song p d ta], None)"
    using p by (simp add: strip)
  show "parse_step (acc, None) (p @ [CHR 0x0A]) = (acc @ [mk_song p 0 []], None)"
    using p by (simp add: strip mk_song_def)
qed

lemma parse_entry_lines:
  assumes "good_path p" "good_meta ta"
  shows "foldl parse_step (acc, None) (entry_lines p d ta) =
           (acc @ [forget_duration (mk_song p d ta)], None)"
proof (cases "ta = []")
  case True
  then show ?thesis
    by (simp add: entry_lines_def parse_step_path_written(2) [OF assms(1)]
        forget_duration_mk_song del: parse_step.simps)
next
  case False
  then show ?thesis
    by (simp add: entry_lines_def parse_step_extinf_written [OF assms(2) False]
        parse_step_path_written(1) [OF assms(1)] forget_duration_mk_song
        del: parse_step.simps)
qed

lemma read_entry_lines:
  assumes "good_path p" "good_meta ta"
  shows "read_lines (concat (entry_lines p d ta) @ rest) [] = entry_lines p d ta @ read_lines rest []"
proof -
  from assms have p: "no_nl p" by (simp add: good_path_def)
  show ?thesis
  proof (cases "ta = []")
    case True
    with read_lines_written [OF p, of rest "[]"] show ?thesis
      by (simp add: entry_lines_def)
  next
    case False
    from extinf_line_props(2) [OF assms(2) False]
    have "read_lines (extinf_line d ta @ CHR 0x0A # p @ CHR 0x0A # rest) []
        = (extinf_line d ta @ [CHR 0x0A]) # read_lines (p @ CHR 0x0A # rest) []"
      using read_lines_written [of "extinf_line d ta" "p @ CHR 0x0A # rest" "[]"] by simp
    with False read_lines_written [OF p, of rest "[]"] show ?thesis
      by (simp add: entry_lines_def)
  qed
qed

lemma roundtrip_songs:
  assumes "\<forall>s \<in> set songs. good_song s"
  shows "\<exists>t. write_songs songs out = Inr (out @ t)
      \<and> foldl parse_step (acc, None) (read_lines t []) = (acc @ map forget_duration songs, None)"
  using assms
proof (induction songs arbitrary: out acc)
  case Nil
  then show ?case by simp
next
  case (Cons s ss)
  then obtain p d ta where s: "s = mk_song p d ta" and gp: "good_path p" and gm: "good_meta ta"
    by (auto simp: good_song_def)
  let ?e = "concat (entry_lines p d ta)"
  from Cons.prems have "\<forall>s \<in> set ss. good_song s" by simp
  from Cons.IH [OF this, of "out @ ?e" "acc @ [forget_duration s]"]
  obtain t where t: "write_songs ss (out @ ?e) = Inr ((out @ ?e) @ t)"
    and parse: "foldl parse_step (acc @ [forget_duration s], None) (read_lines t [])
        = ((acc @ [forget_duration s]) @ map forget_duration ss, None)"
    by blast
  have w: "write_songs (s # ss) out = Inr (out @ (?e @ t))"
    using t by (simp add: s write_song_mk_song)
  have "foldl parse_step (acc, None) (read_lines (?e @ t) [])
      = (acc @ map forget_duration (s # ss), None)"
    using parse
    by (simp add: read_entry_lines [OF gp gm] parse_entry_lines [OF gp gm] s
        del: parse_step.simps)
  with w show ?case by blast
qed

lemma parse_header: "parse_step ([], None) (''#EXTM3U'' @ [CHR 0x0A]) = ([], None)"
  by (simp add: py_strip_def py_isspace_def py_whitespace_def)

lemma roundtrip_parse:
  "\<exists>t. save_batch (parse_m3u s) = Inr t
      \<and> parse_m3u t = map forget_duration (parse_m3u s)"
proof -
  have "\<forall>x \<in> set (parse_m3u s). good_song x"
    using parse_m3u_good by blast
  from roundtrip_songs [OF this, of "''#EXTM3U'' @ [CHR 0x0A]" "[]"]
  obtain t where w: "write_songs (parse_m3u s) (''#EXTM3U'' @ [CHR 0x0A]) = Inr ((''#EXTM3U'' @ [CHR 0x0A]) @ t)"
    and p: "foldl parse_step ([], None) (read_lines t []) = (map forget_duration (parse_m3u s), None)"
    by auto
  have "no_nl ''#EXTM3U''" by (simp add: no_nl_def)
  from read_lines_written [OF this, of t "[]"]
  have "file_lines ((''#EXTM3U'' @ [CHR 0x0A]) @ t) = (''#EXTM3U'' @ [CHR 0x0A]) # read_lines t []"
    by (simp add: file_lines_def)
  then have "parse_m3u ((''#EXTM3U'' @ [CHR 0x0A]) @ t) = map forget_duration (parse_m3u s)"
    using p parse_header by (simp add: parse_m3u_def parse_lines_def del: parse_step.simps)
  with w show ?thesis
    unfolding save_batch_def by blast
qed

lemma demo_parse: "parse_m3u demo_m3u =
   [[(''path'', PyStr ''/music/a.mp3''), (''title'', PyStr ''Title''),
     (''artist'', PyStr ''Artist''), (''duration'', PyInt 123),
     (''metadata'', PyStr '' Artist - Title'')],
    [(''path'', PyStr ''b.mp3''), (''title'', PyStr []), (''artist'', PyStr []),
     (''duration'', PyInt 0), (''metadata'', PyStr [])]]"
  by code_simp

lemma lossy_parse: "parse_m3u lossy_m3u =
   [[(''path'', PyStr ''song.mp3''), (''title'', PyStr []), (''artist'', PyStr []),
     (''duration'', PyInt 123), (''metadata'', PyStr [])]]"
  by code_simp

lemma lossy_write: "save_batch (parse_m3u lossy_m3u) = Inr (''#EXTM3U'' @ [CHR 0x0A] @ ''song.mp3'' @ [CHR 0x0A])"
  by code_simp

lemma lossy_reparse: "parse_m3u (''#EXTM3U'' @ [CHR 0x0A] @ ''song.mp3'' @ [CHR 0x0A]) =
   [[(''path'', PyStr ''song.mp3''), (''title'', PyStr []), (''artist'', PyStr []),
     (''duration'', PyInt 0), (''metadata'', PyStr [])]]"
  by code_simp

subsection \<open>The deduplicator\<close>

lemma py_enumerate_snoc:
  "py_enumerate (xs @ [x]) = py_enumerate xs @ [(int (length xs), x)]"
  by (simp add: py_enumerate_def)

lemma find_duplicates_loop_error:
  "find_duplicates_loop logger xs st = Inl e \<Longrightarrow> e = NameError"
proof (induction logger xs st rule: find_duplicates_loop.induct)
  case (1 logger track_ids duplicates)
  then show ?case by simp
next
  case (2 logger position item rest track_ids duplicates)
  then show ?case
    by (cases logger) (auto split: option.splits if_splits)
qed

lemma find_duplicates_unbound: "find_duplicates Unbound tracks = Inl NameError"
proof (cases "find_duplicates_loop Unbound (py_enumerate tracks) ([], [])")
  case (Inl e)
  with find_duplicates_loop_error [OF Inl] show ?thesis
    by (simp add: find_duplicates_def)
next
  case (Inr st)
  then show ?thesis
    by (simp add: find_duplicates_def split: prod.splits)
qed

lemma find_duplicates_loop_append:
  "find_duplicates_loop Bound (xs @ ys) st =
     (case find_duplicates_loop Bound xs st of
        Inl e \<Rightarrow> Inl e
      | Inr st' \<Rightarrow> find_duplicates_loop Bound ys st')"
proof (induction Bound xs st rule: find_duplicates_loop.induct)
  case (1 track_ids duplicates)
  then show ?case by simp
next
  case (2 position item rest track_ids duplicates)
  then show ?case
    by (auto split: option.splits)
qed

lemma find_duplicates_loop_snoc:
  "find_duplicates_loop Bound (py_enumerate xs) ([], []) = Inr st \<Longrightarrow>
     find_duplicates_loop Bound (py_enumerate (xs @ [x])) ([], []) =
       find_duplicates_loop Bound [(int (length xs), x)] st"
  by (simp add: py_enumerate_snoc find_duplicates_loop_append)

lemma track_at_snoc_lt: "p < length xs \<Longrightarrow> track_at (xs @ [x]) p = track_at xs p"
  by (simp add: track_at_def nth_append)

lemma track_at_snoc_eq:
  "track_at (xs @ [x]) (length xs) = (case x of None \<Rightarrow> None | Some it \<Rightarrow> item_track it)"
  by (simp add: track_at_def)

lemma carries_id_snoc_lt: "q < length xs \<Longrightarrow> carries_id (xs @ [x]) q i = carries_id xs q i"
  by (simp add: carries_id_def track_at_snoc_lt)

lemma seen_snoc_lt:
  "p \<le> length xs \<Longrightarrow>
     (\<exists>q < p. carries_id (xs @ [x]) q i) \<longleftrightarrow> (\<exists>q < p. carries_id xs q i)"
  by (auto simp: carries_id_snoc_lt)

lemma repeats_snoc_old: "p < length xs \<Longrightarrow> repeats (xs @ [x]) p = repeats xs p"
  by (simp add: repeats_def track_at_snoc_lt seen_snoc_lt)

lemma find_duplicates_inv:
  "\<exists>ids. find_duplicates_loop Bound (py_enumerate xs) ([], []) =
            Inr (ids, map int (filter (repeats xs) [0..<length xs]))
      \<and> fst ` set ids = {i. \<exists>q < length xs. carries_id xs q i}"
proof (induction xs rule: rev_induct)
  case Nil
  show ?case by (simp add: py_enumerate_def)
next
  case (snoc x xs)
  then obtain ids where fd: "find_duplicates_loop Bound (py_enumerate xs) ([], []) =
      Inr (ids, map int (filter (repeats xs) [0..<length xs]))"
    and ids: "fst ` set ids = {i. \<exists>q < length xs. carries_id xs q i}"
    by blast
  let ?dups = "map int (filter (repeats xs) [0..<length xs])"
  note step = find_duplicates_loop_snoc [OF fd, of x]
  have old: "filter (repeats (xs @ [x])) [0..<length xs] = filter (repeats xs) [0..<length xs]"
    by (rule filter_cong) (simp_all add: repeats_snoc_old)
  have seen: "\<And>i. (\<exists>q < Suc (length xs). carries_id (xs @ [x]) q i)
      \<longleftrightarrow> (carries_id (xs @ [x]) (length xs) i \<or> i \<in> fst ` set ids)"
    unfolding ids Ex_less_Suc by (simp add: seen_snoc_lt)
  show ?case
  proof (cases "track_at (xs @ [x]) (length xs)")
    case None
    then have run: "find_duplicates_loop Bound (py_enumerate (xs @ [x])) ([], []) = Inr (ids, ?dups)"
      unfolding step by (auto simp: track_at_snoc_eq split: option.splits)
    have nr: "\<not> repeats (xs @ [x]) (length xs)"
      using None by (simp add: repeats_def)
    have nc: "\<And>i. \<not> carries_id (xs @ [x]) (length xs) i"
      using None by (simp add: carries_id_def)
    have "fst ` set ids = {i. \<exists>q < length (xs @ [x]). carries_id (xs @ [x]) q i}"
      by (simp add: seen nc)
    moreover have "?dups = map int (filter (repeats (xs @ [x])) [0..<length (xs @ [x])])"
      using old nr by simp
    ultimately show ?thesis using run by (intro exI [of _ ids]) simp
  next
    case (Some t)
    then have car: "\<And>i. carries_id (xs @ [x]) (length xs) i \<longleftrightarrow> i = tr_id t"
      by (auto simp: carries_id_def)
    from Some obtain it where x: "x = Some it" and it: "item_track it = Some t"
      by (auto simp: track_at_snoc_eq split: option.splits)
    have rep: "repeats (xs @ [x]) (length xs) \<longleftrightarrow> tr_id t \<in> fst ` set ids"
      using Some by (simp add: repeats_def seen_snoc_lt ids)
    show ?thesis
    proof (cases "tr_id t \<in> fst ` set ids")
      case True
      then have run: "find_duplicates_loop Bound (py_enumerate (xs @ [x])) ([], []) =
          Inr (ids, ?dups @ [int (length xs)])"
        unfolding step by (simp add: x it)
      from True have "fst ` set ids = {i. i = tr_id t \<or> i \<in> fst ` set ids}"
        by auto
      then have "fst ` set ids = {i. \<exists>q < length (xs @ [x]). carries_id (xs @ [x]) q i}"
        by (simp add: seen car)
      moreover have "?dups @ [int (length xs)]
          = map int (filter (repeats (xs @ [x])) [0..<length (xs @ [x])])"
        using old rep True by simp
      ultimately show ?thesis using run by (intro exI [of _ ids]) simp
    next
      case False
      let ?ids = "ids @ [(tr_id t, \<lparr>info_position = int (length xs), info_name = tr_name t,
                        info_artists = tr_artists t\<rparr>)]"
      from False have run: "find_duplicates_loop Bound (py_enumerate (xs @ [x])) ([], []) =
          Inr (?ids, ?dups)"
        unfolding step by (simp add: x it)
      have "insert (tr_id t) (fst ` set ids) = {i. i = tr_id t \<or> i \<in> fst ` set ids}"
        by auto
      then have "fst ` set ?ids = {i. \<exists>q < length (xs @ [x]). carries_id (xs @ [x]) q i}"
        by (simp add: seen car)
      moreover have "?dups = map int (filter (repeats (xs @ [x])) [0..<length (xs @ [x])])"
        using old rep False by simp
      ultimately show ?thesis using run by (intro exI [of _ ?ids]) simp
    qed
  qed
qed

lemma find_duplicates_bound:
  "\<exists>ids. find_duplicates Bound xs = Inr (ids, map int (filter (repeats xs) [0..<length xs]))"
  using find_duplicates_inv [of xs] by (auto simp: find_duplicates_def)

lemma find_duplicates_returns:
  "find_duplicates logger xs = Inr (ids, dups) \<Longrightarrow>
     logger = Bound \<and> dups = map int (filter (repeats xs) [0..<length xs])"
  using find_duplicates_bound [of xs] find_duplicates_unbound [of xs]
  by (cases logger) auto

lemma tracks_to_remove_loop_char:
  "tracks_to_remove_loop tracks ps acc = Inr r \<Longrightarrow>
     \<exists>r'. r = acc @ r' \<and> concat (map removal_positions r') = filter (removable tracks) ps
        \<and> (\<forall>e \<in> set r'. entry_ok tracks e)"
proof (induction ps arbitrary: acc)
  case Nil
  then show ?case by simp
next
  case (Cons pos rest)
  show ?case
  proof (cases "removable tracks pos")
    case True
    then obtain t u where pos: "0 \<le> pos" and at: "track_at tracks (nat pos) = Some t"
      and uri: "tr_uri t = Some u" "u \<noteq> []"
      by (auto simp: removable_def)
    from at have lt: "pos < int (length tracks)"
      by (auto simp: track_at_def split: if_splits)
    with at obtain it where it: "tracks ! nat pos = Some it" "item_track it = Some t"
      by (auto simp: track_at_def split: if_splits option.splits)
    let ?e = "\<lparr>removal_uri = u, removal_positions = [pos]\<rparr>"
    from Cons.prems pos lt it uri
    have "tracks_to_remove_loop tracks rest (acc @ [?e]) = Inr r"
      by simp
    from Cons.IH [OF this] obtain r' where r': "r = (acc @ [?e]) @ r'"
      "concat (map removal_positions r') = filter (removable tracks) rest"
      "\<forall>e \<in> set r'. entry_ok tracks e"
      by blast
    have "entry_ok tracks ?e"
      using pos at uri by (simp add: entry_ok_def)
    with r' True show ?thesis
      by (intro exI [of _ "?e # r'"]) simp
  next
    case False
    have "tracks_to_remove_loop tracks rest acc = Inr r"
    proof (cases "0 \<le> pos \<and> pos < int (length tracks)")
      case inr: True
      then have at: "track_at tracks (nat pos) = (case tracks ! nat pos of None \<Rightarrow> None | Some it \<Rightarrow> item_track it)"
        by (simp add: track_at_def nat_less_iff)
      from Cons.prems inr False at show ?thesis
        by (auto simp: removable_def split: option.splits if_splits)
    next
      case False
      with Cons.prems show ?thesis by auto
    qed
    from Cons.IH [OF this] False show ?thesis
      by simp
  qed
qed

lemma tracks_to_remove_loop_total:
  "\<forall>p \<in> set ps. 0 \<le> p \<and> p < int (length tracks) \<longrightarrow> tracks ! nat p \<noteq> None \<Longrightarrow>
     \<exists>r. tracks_to_remove_loop tracks ps acc = Inr r"
  by (induction ps arbitrary: acc) (auto split: option.splits)

lemma sorted_desc: "sorted_wrt (\<ge>) (rev (sort (ps :: int list)))"
  by (simp add: sorted_wrt_rev)

lemma sorted_desc_strict: "distinct ps \<Longrightarrow> sorted_wrt (>) (rev (sort (ps :: int list)))"
proof -
  assume "distinct ps"
  then have "sorted_wrt (<) (sort ps)"
    by (simp add: strict_sorted_iff)
  then show ?thesis
    by (simp add: sorted_wrt_rev)
qed

lemma repeats_track: "repeats tracks p \<Longrightarrow> p < length tracks \<and> tracks ! p \<noteq> None"
  by (auto simp: repeats_def track_at_def split: if_splits option.splits)


lemma remove_batches_unbound:
  "remove_batches Unbound (recording_api outcome) batches (n, received) =
     (if batches = [] then (Inr n, received) else (Inl NameError, received @ [hd batches]))"
  by (cases batches) (simp_all add: recording_api_def split: bool.splits)

lemma remove_batches_bound:
  "\<exists>n'. remove_batches Bound (recording_api outcome) batches (n, received) =
     (Inr n', received @ batches)"
proof (induction batches arbitrary: n received)
  case Nil
  show ?case by simp
next
  case (Cons batch rest)
  let ?n = "if outcome received batch then n + length batch else n"
  have one: "recording_api outcome received batch = (outcome received batch, received @ [batch])"
    by (simp add: recording_api_def)
  from Cons [of ?n "received @ [batch]"] show ?case
    by (cases "outcome received batch") (simp_all add: one)
qed

lemma remove_batches_received:
  "snd (remove_batches logger (recording_api outcome) batches (n, received)) =
     received @ (case logger of Bound \<Rightarrow> batches | Unbound \<Rightarrow> take 1 batches)"
proof (cases logger)
  case Unbound
  then show ?thesis
    by (cases batches) (simp_all add: remove_batches_unbound del: remove_batches.simps)
next
  case Bound
  with remove_batches_bound [of outcome batches n received] show ?thesis by auto
qed


lemma remove_duplicates_received:
  "snd (remove_duplicates logger (recording_api outcome) [] ps tracks) =
     (case tracks_to_remove_loop tracks (rev (sort ps)) [] of
        Inl e \<Rightarrow> []
      | Inr entries \<Rightarrow>
          (case logger of Bound \<Rightarrow> chunks entries 100 | Unbound \<Rightarrow> take 1 (chunks entries 100)))"
proof (cases "ps = []")
  case True
  then show ?thesis
    by (simp add: remove_duplicates_def split: global_name.splits)
next
  case False
  show ?thesis
  proof (cases "tracks_to_remove_loop tracks (rev (sort ps)) []")
    case (Inl e)
    with False show ?thesis by (simp add: remove_duplicates_def)
  next
    case (Inr entries)
    show ?thesis
    proof (cases "entries = []")
      case True
      with False Inr show ?thesis
        by (simp add: remove_duplicates_def split: global_name.splits)
    next
      case nonempty: False
      with False Inr remove_batches_received [of logger outcome "chunks entries 100" 0 "[]"]
      show ?thesis
        by (simp add: remove_duplicates_def)
    qed
  qed
qed

lemma remove_duplicates_prefix:
  assumes "remove_duplicates logger (recording_api outcome) [] ps tracks = (result, received)"
  shows "received = []
     \<or> (\<exists>entries rest. tracks_to_remove_loop tracks (rev (sort ps)) [] = Inr entries
           \<and> set received \<subseteq> set (chunks entries 100) \<and> entries = concat received @ rest)"
proof (cases "tracks_to_remove_loop tracks (rev (sort ps)) []")
  case (Inl e)
  with assms remove_duplicates_received [of logger outcome ps tracks] show ?thesis by simp
next
  case (Inr entries)
  from assms remove_duplicates_received [of logger outcome ps tracks] Inr
  have r: "received = (case logger of Bound \<Rightarrow> chunks entries 100
                        | Unbound \<Rightarrow> take 1 (chunks entries 100))"
    by simp
  have c: "concat (chunks entries 100) = entries"
    by (simp add: concat_chunks)
  show ?thesis
  proof (cases logger)
    case Bound
    with r c Inr show ?thesis by auto
  next
    case Unbound
    with r have t: "received = take 1 (chunks entries 100)" by simp
    have "concat (take 1 (chunks entries 100)) @ concat (drop 1 (chunks entries 100)) = entries"
      using c by (metis append_take_drop_id concat_append)
    with t Inr show ?thesis
      by (metis set_take_subset)
  qed
qed

lemma remove_duplicates_char:
  assumes "remove_duplicates logger (recording_api outcome) [] ps tracks = (result, received)"
  shows "(\<forall>b \<in> set received. 1 \<le> length b \<and> length b \<le> 100)
    \<and> (\<forall>e \<in> set (concat received). entry_ok tracks e)
    \<and> (\<exists>rest. concat (map removal_positions (concat received)) @ rest
          = filter (removable tracks) (rev (sort ps)))"
  using remove_duplicates_prefix [OF assms]
proof
  assume "received = []"
  then show ?thesis by simp
next
  assume "\<exists>entries rest. tracks_to_remove_loop tracks (rev (sort ps)) [] = Inr entries
           \<and> set received \<subseteq> set (chunks entries 100) \<and> entries = concat received @ rest"
  then obtain entries rest where loop: "tracks_to_remove_loop tracks (rev (sort ps)) [] = Inr entries"
    and sub: "set received \<subseteq> set (chunks entries 100)" and pre: "entries = concat received @ rest"
    by blast
  from tracks_to_remove_loop_char [OF loop]
  have pos: "concat (map removal_positions entries) = filter (removable tracks) (rev (sort ps))"
    and ok: "\<forall>e \<in> set entries. entry_ok tracks e"
    by auto
  have "\<forall>b \<in> set received. 1 \<le> length b \<and> length b \<le> 100"
    using sub chunks_length_le [of 100 _ entries] by auto
  moreover have "\<forall>e \<in> set (concat received). entry_ok tracks e"
    using ok pre by (metis Un_iff set_append)
  moreover have "concat (map removal_positions (concat received)) @ concat (map removal_positions rest)
      = filter (removable tracks) (rev (sort ps))"
    using pos pre by (metis concat_append map_append)
  ultimately show ?thesis by blast
qed

lemma demo_remove_unbound:
  "remove_duplicates Unbound (recording_api demo_outcome) [] [3, 5] demo_playlist =
     (Inl NameError, [[\<lparr>removal_uri = ''uri:b'', removal_positions = [5]\<rparr>,
                       \<lparr>removal_uri = ''uri:a'', removal_positions = [3]\<rparr>]])"
  by (simp add: remove_duplicates_def demo_playlist_def demo_track_def demo_outcome_def
      recording_api_def chunks_def py_range.simps py_slice_def)

lemma demo_remove_bound:
  "remove_duplicates Bound (recording_api demo_outcome) [] [3, 5] demo_playlist =
     (Inr 2, [[\<lparr>removal_uri = ''uri:b'', removal_positions = [5]\<rparr>,
               \<lparr>removal_uri = ''uri:a'', removal_positions = [3]\<rparr>]])"
  by (simp add: remove_duplicates_def demo_playlist_def demo_track_def demo_outcome_def
      recording_api_def chunks_def py_range.simps py_slice_def)

lemma demo_dups: "find_duplicates Bound demo_playlist =
    Inr ([(Some ''a'', \<lparr>info_position = 0, info_name = ''song'', info_artists = [''band'']\<rparr>),
          (Some ''b'', \<lparr>info_position = 2, info_name = ''song'', info_artists = [''band'']\<rparr>)],
         [3, 5])"
  by (simp add: find_duplicates_def py_enumerate_def demo_playlist_def demo_track_def upt_rec)

subsection \<open>The backup exporter\<close>

lemma length_py_enumerate [simp]: "length (py_enumerate xs) = length xs"
  by (simp add: py_enumerate_def)

lemma py_enumerate_nth: "k < length xs \<Longrightarrow> py_enumerate xs ! k = (int k, xs ! k)"
  by (simp add: py_enumerate_def)

lemma py_enumerate_mem: "item \<in> set xs \<Longrightarrow> \<exists>index. (index, item) \<in> set (py_enumerate xs)"
proof -
  assume "item \<in> set xs"
  then obtain k where k: "k < length xs" "xs ! k = item"
    by (auto simp: in_set_conv_nth)
  then have "py_enumerate xs ! k = (int k, item)" "k < length (py_enumerate xs)"
    by (simp_all add: py_enumerate_nth)
  then show ?thesis by (metis nth_mem)
qed

lemma normalize_item_raises:
  "normalize_item index item = Inl e \<longleftrightarrow>
     e = AttributeError \<and> (\<exists>track. i_track item = Some track \<and> t_album track = Null)"
  by (auto simp: normalize_item_def split: option.splits json_key.splits)

lemma normalize_loop_raises:
  "(index, item) \<in> set xs \<Longrightarrow> normalize_item index item = Inl e \<Longrightarrow>
     normalize_loop xs normalized = Inl AttributeError"
proof (induction xs arbitrary: normalized)
  case Nil
  then show ?case by simp
next
  case (Cons x xs)
  obtain i it where x: "x = (i, it)" by (cases x)
  show ?case
  proof (cases "normalize_item i it")
    case (Inl e')
    then have "e' = AttributeError" by (simp add: normalize_item_raises)
    with Inl x show ?thesis by simp
  next
    case (Inr r)
    with Cons.prems x have "(index, item) \<in> set xs" by auto
    from Cons.IH [OF this Cons.prems(2)] Inr x show ?thesis by simp
  qed
qed

lemma normalize_loop_returns:
  "\<forall>(index, item) \<in> set xs. \<exists>r. normalize_item index item = Inr r \<Longrightarrow>
     \<exists>rs. normalize_loop xs normalized = Inr (normalized @ rs) \<and> length rs = length xs
        \<and> (\<forall>k < length xs. normalize_item (fst (xs ! k)) (snd (xs ! k)) = Inr (rs ! k))"
proof (induction xs arbitrary: normalized)
  case Nil
  then show ?case by simp
next
  case (Cons x xs)
  obtain i it where x: "x = (i, it)" by (cases x)
  with Cons.prems obtain r where r: "normalize_item i it = Inr r" by auto
  from Cons.prems have "\<forall>(index, item) \<in> set xs. \<exists>r. normalize_item index item = Inr r"
    by simp
  from Cons.IH [OF this, of "normalized @ [r]"]
  obtain rs where rs: "normalize_loop xs (normalized @ [r]) = Inr ((normalized @ [r]) @ rs)"
      "length rs = length xs"
      "\<forall>k < length xs. normalize_item (fst (xs ! k)) (snd (xs ! k)) = Inr (rs ! k)"
    by blast
  have "\<forall>k < length (x # xs). normalize_item (fst ((x # xs) ! k)) (snd ((x # xs) ! k))
      = Inr ((r # rs) ! k)"
    using rs(3) r x by (auto simp: nth_Cons split: nat.splits)
  with rs r x show ?case
    by (intro exI [of _ "r # rs"]) simp
qed

lemma normalize_tracks_returns:
  assumes "\<forall>item \<in> set items. \<forall>track. i_track item = Some track \<longrightarrow> t_album track \<noteq> Null"
  shows "\<exists>records. normalize_tracks items = Inr records \<and> length records = length items
     \<and> (\<forall>k < length items. normalize_item (int k) (items ! k) = Inr (records ! k))"
proof -
  have "\<forall>(index, item) \<in> set (py_enumerate items). \<exists>r. normalize_item index item = Inr r"
  proof (clarify)
    fix index item assume "(index, item) \<in> set (py_enumerate items)"
    then have mem: "item \<in> set items"
      unfolding py_enumerate_def by (rule set_zip_rightD)
    show "\<exists>r. normalize_item index item = Inr r"
    proof (cases "normalize_item index item")
      case (Inl e)
      then obtain track where "i_track item = Some track" "t_album track = Null"
        unfolding normalize_item_raises by blast
      with assms mem show ?thesis by blast
    next
      case (Inr r)
      then show ?thesis by blast
    qed
  qed
  from normalize_loop_returns [OF this, of "[]"]
  obtain rs where rs: "normalize_loop (py_enumerate items) [] = Inr rs"
      "length rs = length items"
      "\<forall>k < length (py_enumerate items).
         normalize_item (fst (py_enumerate items ! k)) (snd (py_enumerate items ! k)) = Inr (rs ! k)"
    by auto
  have "\<forall>k < length items. normalize_item (int k) (items ! k) = Inr (rs ! k)"
  proof (intro allI impI)
    fix k assume k: "k < length items"
    with rs(3) have "normalize_item (fst (py_enumerate items ! k)) (snd (py_enumerate items ! k))
        = Inr (rs ! k)"
      by simp
    then show "normalize_item (int k) (items ! k) = Inr (rs ! k)"
      by (simp only: py_enumerate_nth [OF k] fst_conv snd_conv)
  qed
  with rs(1,2) show ?thesis
    unfolding normalize_tracks_def by blast
qed

lemma normalize_item_fields:
  assumes "normalize_item index item = Inr r"
  shows "n_position r = index
    \<and> (n_available r \<longleftrightarrow> i_track item \<noteq> None)
    \<and> (i_track item = None \<longrightarrow>
          n_name r = Some ''Unavailable Track'' \<and> n_id r = None \<and> n_uri r = None)
    \<and> (\<forall>track. i_track item = Some track \<longrightarrow>
          n_id r = t_id track \<and> n_uri r = t_uri track \<and> n_name r = t_name track
        \<and> n_artists r = map (\<lambda>artist. \<lparr>ref_id = artist_id artist, ref_name = artist_name artist\<rparr>)
                           (t_artists track)
        \<and> n_album r = Some (case t_album track of
                               Value album \<Rightarrow> \<lparr>ref_id = album_id album, ref_name = album_name album\<rparr>
                             | _ \<Rightarrow> \<lparr>ref_id = None, ref_name = None\<rparr>)
        \<and> n_duration_ms r = t_duration_ms track)"
proof (cases "i_track item")
  case None
  with assms show ?thesis
    by (simp add: normalize_item_def) (cases r, simp)
next
  case (Some track)
  show ?thesis
  proof (cases "t_album track")
    case Missing
    with assms Some show ?thesis
      by (simp add: normalize_item_def) (cases r, simp)
  next
    case Null
    with assms Some show ?thesis
      by (simp add: normalize_item_def)
  next
    case (Value album)
    with assms Some show ?thesis
      by (simp add: normalize_item_def) (cases r, simp)
  qed
qed

lemma demo_normalize:
  "map_sum id (map n_position) (normalize_tracks demo_items) = Inr [0, 1, 2]
   \<and> map_sum id (map n_available) (normalize_tracks demo_items) = Inr [True, False, True]
   \<and> map_sum id (map n_id) (normalize_tracks demo_items) = Inr [Some ''a'', None, Some ''b'']"
  by (simp add: normalize_tracks_def py_enumerate_def normalize_item_def demo_items_def
      demo_item_def upt_rec)

subsection \<open>Pagination\<close>

lemma page_sequence_Cons:
  "page_sequence (p # ps) \<longleftrightarrow> (if ps = [] then \<not> has_next p else has_next p \<and> page_sequence ps)"
  by (auto simp: page_sequence_def)

lemma fetch_loop_run:
  "page_sequence pages \<Longrightarrow>
     fetch_playlist_tracks_loop pages limit offset items requests =
       Some (items @ concat (map page_items pages),
             requests @
               map (\<lambda>k. Playlist_items (Some (limit, offset + k * limit))) [0..<length pages])"
proof (induction pages arbitrary: offset items requests)
  case Nil
  then show ?case by (simp add: page_sequence_def)
next
  case (Cons p ps)
  show ?case
  proof (cases "ps = []")
    case True
    with Cons.prems show ?thesis by (simp add: page_sequence_Cons)
  next
    case False
    with Cons.prems have hn: "has_next p" and seq: "page_sequence ps"
      by (simp_all add: page_sequence_Cons)
    have E: "map (\<lambda>k. Playlist_items (Some (limit, offset + k * limit))) [0..<Suc (length ps)]
        = Playlist_items (Some (limit, offset))
          # map (\<lambda>k. Playlist_items (Some (limit, offset + limit + k * limit))) [0..<length ps]"
      by (simp add: upt_conv_Cons map_Suc_upt [symmetric] add.assoc del: upt_Suc)
    from hn Cons.IH [OF seq] show ?thesis by (simp add: E del: upt_Suc)
  qed
qed

lemma get_loop_run:
  "page_sequence (p # ps) \<Longrightarrow>
     get_playlist_tracks_loop ps p tracks requests =
       Some (tracks @ concat (map page_items ps), requests @ map Next (butlast (p # ps)))"
proof (induction ps arbitrary: p tracks requests)
  case Nil
  then show ?case by (simp add: page_sequence_Cons)
next
  case (Cons q qs)
  from Cons.prems have hn: "has_next p" and seq: "page_sequence (q # qs)"
    by (simp_all add: page_sequence_Cons)
  from hn Cons.IH [OF seq] show ?case by simp
qed

lemma fetch_playlist_tracks_run:
  "page_sequence pages \<Longrightarrow>
     fetch_playlist_tracks pages =
       Some (concat (map page_items pages),
             map (\<lambda>k. Playlist_items (Some (100, k * 100))) [0..<length pages])"
  using fetch_loop_run [of pages 100 0 "[]" "[]"] by (simp add: fetch_playlist_tracks_def)

lemma get_playlist_tracks_run:
  "page_sequence pages \<Longrightarrow>
     get_playlist_tracks logger pages =
       Some (with_global logger (Inr (concat (map page_items pages))),
             Playlist_items None # map Next (butlast pages))"
proof (cases pages)
  case Nil
  assume "page_sequence pages"
  with Nil show ?thesis by (simp add: page_sequence_def)
next
  case (Cons p ps)
  assume "page_sequence pages"
  with Cons get_loop_run [of p ps "page_items p" "[Playlist_items None]"]
  show ?thesis by (simp add: get_playlist_tracks_def)
qed

lemma get_playlist_tracks_unbound:
  "get_playlist_tracks Unbound pages \<noteq> Some (Inr items, requests)"
  by (cases pages)
    (auto simp: get_playlist_tracks_def simp del: get_playlist_tracks_loop.simps
      split: option.splits)
subsection \<open>The playlist adder\<close>

lemma added_batches_append [simp]: "added_batches (xs @ ys) = added_batches xs @ added_batches ys"
  by (simp add: added_batches_def)

lemma added_count_append [simp]: "added_count (xs @ ys) = added_count xs + added_count ys"
  by (simp add: added_count_def)

lemma added_batches_simps [simp]:
  "added_batches [] = []" "added_batches [Add_call b ok] = [b]" "added_batches [Search_call q r] = []"
  by (simp_all add: added_batches_def)

lemma added_count_simps [simp]:
  "added_count [] = 0" "added_count [Add_call b ok] = (if ok then length b else 0)"
  "added_count [Search_call q r] = 0"
  by (simp_all add: added_count_def)

lemma track_failed_fields [simp]:
  "st_track_ids (track_failed st track p) = st_track_ids st"
  "st_failed_tracks (track_failed st track p) = st_failed_tracks st @ [track]"
  "st_calls (track_failed st track p) = st_calls st"
  "st_remote (track_failed st track p) = st_remote st"
  by (simp_all add: track_failed_def)

lemma search_for_track_effect:
  "\<exists>cs. st_calls (search_for_track search st track p) = st_calls st @ cs \<and> (\<forall>c \<in> set cs. is_search c)
      \<and> ((\<exists>i. st_track_ids (search_for_track search st track p) = st_track_ids st @ [i]
              \<and> st_failed_tracks (search_for_track search st track p) = st_failed_tracks st)
          \<or> (st_track_ids (search_for_track search st track p) = st_track_ids st
              \<and> st_failed_tracks (search_for_track search st track p) = st_failed_tracks st @ [track]))"
proof (cases "extract_search_query_from_song track")
  case (Inl e)
  then show ?thesis by (simp add: search_for_track_def)
next
  case (Inr query)
  show ?thesis
  proof (cases "query = []")
    case True
    with Inr show ?thesis by (simp add: search_for_track_def)
  next
    case False
    obtain reply r' where s: "search (st_remote st) query = (reply, r')"
      by (cases "search (st_remote st) query")
    show ?thesis
    proof (cases reply)
      case Search_raises
      with Inr False s show ?thesis
        by (simp add: search_for_track_def is_search_def)
    next
      case (Search_items ids)
      with Inr False s show ?thesis
        by (cases ids) (simp_all add: search_for_track_def is_search_def)
    qed
  qed
qed

lemma process_track_effect:
  assumes "process_track urlparse search st track = Inr st'"
  shows "\<exists>cs. st_calls st' = st_calls st @ cs \<and> (\<forall>c \<in> set cs. is_search c)
      \<and> ((\<exists>i. st_track_ids st' = st_track_ids st @ [i] \<and> st_failed_tracks st' = st_failed_tracks st)
          \<or> (st_track_ids st' = st_track_ids st \<and> st_failed_tracks st' = st_failed_tracks st @ [track]))"
proof -
  let ?p = "case map_of track ''path'' of None \<Rightarrow> PyStr [] | Some v \<Rightarrow> v"
  from assms have "st' = search_for_track search st track ?p
      \<or> (\<exists>i. st' = st\<lparr>st_track_ids := st_track_ids st @ [i]\<rparr>)"
    by (auto simp: process_track_def Let_def split: sum.splits bool.splits option.splits)
  then show ?thesis
  proof
    assume "st' = search_for_track search st track ?p"
    with search_for_track_effect [of search st track ?p] show ?thesis by simp
  next
    assume "\<exists>i. st' = st\<lparr>st_track_ids := st_track_ids st @ [i]\<rparr>"
    then show ?thesis by auto
  qed
qed

lemma resolve_tracks_effect:
  assumes "resolve_tracks urlparse search tracks st = Inr st'"
  shows "(\<exists>cs. st_calls st' = st_calls st @ cs \<and> (\<forall>c \<in> set cs. is_search c))
      \<and> (\<exists>flags. length flags = length tracks
            \<and> st_failed_tracks st' = st_failed_tracks st @ map fst (filter (\<lambda>(t, ok). \<not> ok) (zip tracks flags))
            \<and> length (st_track_ids st') = length (st_track_ids st) + length (filter id flags))"
  using assms
proof (induction tracks arbitrary: st)
  case Nil
  then show ?case by simp
next
  case (Cons track rest)
  then obtain st1 where one: "process_track urlparse search st track = Inr st1"
    and more: "resolve_tracks urlparse search rest st1 = Inr st'"
    by (auto split: sum.splits)
  from process_track_effect [OF one] obtain cs1 where cs1: "st_calls st1 = st_calls st @ cs1"
      "\<forall>c \<in> set cs1. is_search c"
    and alt: "(\<exists>i. st_track_ids st1 = st_track_ids st @ [i] \<and> st_failed_tracks st1 = st_failed_tracks st)
          \<or> (st_track_ids st1 = st_track_ids st \<and> st_failed_tracks st1 = st_failed_tracks st @ [track])"
    by blast
  from Cons.IH [OF more] obtain cs2 flags where cs2: "st_calls st' = st_calls st1 @ cs2"
      "\<forall>c \<in> set cs2. is_search c"
    and fl: "length flags = length rest"
      "st_failed_tracks st' = st_failed_tracks st1 @ map fst (filter (\<lambda>(t, ok). \<not> ok) (zip rest flags))"
      "length (st_track_ids st') = length (st_track_ids st1) + length (filter id flags)"
    by blast
  have c: "\<exists>cs. st_calls st' = st_calls st @ cs \<and> (\<forall>c \<in> set cs. is_search c)"
    using cs1 cs2 by (intro exI [of _ "cs1 @ cs2"]) auto
  from alt show ?case
  proof
    assume "\<exists>i. st_track_ids st1 = st_track_ids st @ [i] \<and> st_failed_tracks st1 = st_failed_tracks st"
    with fl have "length (True # flags) = length (track # rest)
        \<and> st_failed_tracks st' = st_failed_tracks st @ map fst (filter (\<lambda>(t, ok). \<not> ok) (zip (track # rest) (True # flags)))
        \<and> length (st_track_ids st') = length (st_track_ids st) + length (filter id (True # flags))"
      by auto
    with c show ?thesis by blast
  next
    assume "st_track_ids st1 = st_track_ids st \<and> st_failed_tracks st1 = st_failed_tracks st @ [track]"
    with fl have "length (False # flags) = length (track # rest)
        \<and> st_failed_tracks st' = st_failed_tracks st @ map fst (filter (\<lambda>(t, ok). \<not> ok) (zip (track # rest) (False # flags)))
        \<and> length (st_track_ids st') = length (st_track_ids st) + length (filter id (False # flags))"
      by auto
    with c show ?thesis by blast
  qed
qed

lemma process_track_total:
  "is_spotify_url urlparse (case map_of track ''path'' of None \<Rightarrow> PyStr [] | Some v \<Rightarrow> v) = Inr b \<Longrightarrow>
     \<exists>st1. process_track urlparse search st track = Inr st1"
  by (simp add: process_track_def Let_def split: bool.splits option.splits)

lemma resolve_tracks_total:
  assumes "\<forall>track \<in> set tracks.
      \<exists>b. is_spotify_url urlparse (case map_of track ''path'' of None \<Rightarrow> PyStr [] | Some v \<Rightarrow> v) = Inr b"
  shows "\<exists>st'. resolve_tracks urlparse search tracks st = Inr st'"
  using assms
proof (induction tracks arbitrary: st)
  case Nil
  then show ?case by simp
next
  case (Cons track rest)
  then obtain b where "is_spotify_url urlparse (case map_of track ''path'' of None \<Rightarrow> PyStr [] | Some v \<Rightarrow> v) = Inr b"
    by auto
  from process_track_total [OF this]
  obtain st1 where "process_track urlparse search st track = Inr st1"
    by blast
  with Cons.IH [of st1] Cons.prems show ?case by simp
qed

lemma add_batches_effect:
  "add_batches add batches (n, st) = (n', st') \<Longrightarrow>
     st_track_ids st' = st_track_ids st \<and> st_failed_tracks st' = st_failed_tracks st
     \<and> (\<exists>cs. st_calls st' = st_calls st @ cs \<and> (\<forall>c \<in> set cs. is_add c)
           \<and> added_batches cs = batches \<and> n' = n + added_count cs)"
proof (induction batches arbitrary: n st)
  case Nil
  then have "st' = st" "n' = n" by simp_all
  then show ?case
    by (intro conjI exI [of _ "[]"]) simp_all
next
  case (Cons batch rest)
  obtain ok r' where a: "add (st_remote st) batch = (ok, r')"
    by (cases "add (st_remote st) batch")
  let ?st1 = "st\<lparr>st_remote := r', st_calls := st_calls st @ [Add_call batch ok]\<rparr>"
  let ?n1 = "if ok then n + length batch else n"
  from Cons.prems a have "add_batches add rest (?n1, ?st1) = (n', st')"
    by simp
  from Cons.IH [OF this] obtain cs where ids: "st_track_ids st' = st_track_ids st"
      "st_failed_tracks st' = st_failed_tracks st"
    and cs: "st_calls st' = (st_calls st @ [Add_call batch ok]) @ cs" "\<forall>c \<in> set cs. is_add c"
      "added_batches cs = rest" "n' = ?n1 + added_count cs"
    by auto
  have "st_calls st' = st_calls st @ (Add_call batch ok # cs) \<and> (\<forall>c \<in> set (Add_call batch ok # cs). is_add c)
      \<and> added_batches (Add_call batch ok # cs) = batch # rest
      \<and> n' = n + added_count (Add_call batch ok # cs)"
    using cs added_batches_append [of "[Add_call batch ok]" cs]
      added_count_append [of "[Add_call batch ok]" cs]
    by (simp add: is_add_def)
  with ids show ?case by blast
qed

lemma searches_no_batches: "\<forall>c \<in> set cs. is_search c \<Longrightarrow> added_batches cs = [] \<and> added_count cs = 0"
proof (induction cs)
  case Nil
  show ?case by simp
next
  case (Cons c cs)
  then obtain q r where "c = Search_call q r"
    by (cases c) (auto simp: is_search_def)
  with Cons added_batches_append [of "[c]" cs] added_count_append [of "[c]" cs] show ?case
    by simp
qed

lemma process_m3u_batch_log_and_skip:
  assumes "\<forall>track \<in> set (parse_m3u file_text).
      \<exists>b. is_spotify_url urlparse (case map_of track ''path'' of None \<Rightarrow> PyStr [] | Some v \<Rightarrow> v) = Inr b"
  shows "\<exists>added failed st flags.
      process_m3u_batch urlparse search add r file_text = Inr ((added, length failed, failed), st)
    \<and> st_failed_tracks st = failed
    \<and> length flags = length (parse_m3u file_text)
    \<and> failed = map fst (filter (\<lambda>(t, ok). \<not> ok) (zip (parse_m3u file_text) flags))
    \<and> length (st_track_ids st) = length (filter id flags)"
proof -
  let ?st0 = "\<lparr>st_track_ids = [], st_failed_tracks = [], st_failed_file = [], st_remote = r, st_calls = []\<rparr>"
  from resolve_tracks_total [OF assms, of search ?st0]
  obtain st1 where res: "resolve_tracks urlparse search (parse_m3u file_text) ?st0 = Inr st1"
    by blast
  from resolve_tracks_effect [OF res] obtain flags where fl: "length flags = length (parse_m3u file_text)"
      "st_failed_tracks st1 = map fst (filter (\<lambda>(t, ok). \<not> ok) (zip (parse_m3u file_text) flags))"
      "length (st_track_ids st1) = length (filter id flags)"
    by auto
  obtain added st2 where ad: "add_batches add (chunks (st_track_ids st1) 100) (0, st1) = (added, st2)"
    by (cases "add_batches add (chunks (st_track_ids st1) 100) (0, st1)")
  from add_batches_effect [OF ad] have same: "st_track_ids st2 = st_track_ids st1"
      "st_failed_tracks st2 = st_failed_tracks st1"
    by simp_all
  from res ad have "process_m3u_batch urlparse search add r file_text
      = Inr ((added, length (st_failed_tracks st2), st_failed_tracks st2), st2)"
    by (simp add: process_m3u_batch_def)
  with fl same show ?thesis by (metis (lifting))
qed

lemma py_split1_cases:
  "(case py_split1 sep s of [x, y] \<Rightarrow> f x y | _ \<Rightarrow> g)
     = (case split_first sep s of Some (x, y) \<Rightarrow> f x y | None \<Rightarrow> g)"
  by (simp add: py_split1_def split: option.splits)

lemma extract_search_query_record:
  "extract_search_query_from_song
     [(''path'', PyStr p), (''title'', PyStr t), (''artist'', PyStr a), (''duration'', PyInt d),
      (''metadata'', PyStr m)]
   = Inr (if a \<noteq> [] \<and> t \<noteq> [] then ''track:'' @ t @ '' artist:'' @ a
          else if p = [] then []
          else (case split_first '' - '' (splitext_root (basename p)) of
                  Some (x, y) \<Rightarrow> ''track:'' @ y @ '' artist:'' @ x
                | None \<Rightarrow> splitext_root (basename p)))"
  by (simp add: extract_search_query_from_song_def get_truthy_def py_truthy_def py_format_def
      py_split1_cases Let_def split: option.splits)

lemma spotify_url_parsed:
  "urlparse_py (\<lambda>h. True) ''https://open.spotify.com/track/6rqhFgbbKwnb9MLmUQDhG6?si=x''
     = Inr \<lparr>url_netloc = ''open.spotify.com'', url_path = ''/track/6rqhFgbbKwnb9MLmUQDhG6''\<rparr>"
  by code_simp

lemma spotify_url_id:
  "extract_track_id_from_url ''https://open.spotify.com/track/6rqhFgbbKwnb9MLmUQDhG6?si=x''
     = Some ''6rqhFgbbKwnb9MLmUQDhG6''"
  by code_simp

lemma spotify_url_track: "py_contains ''track'' ''/track/6rqhFgbbKwnb9MLmUQDhG6''"
  by code_simp

lemma file_url_parsed:
  "urlparse_py (\<lambda>h. True) ''/music/a.mp3'' = Inr \<lparr>url_netloc = [], url_path = ''/music/a.mp3''\<rparr>"
  by code_simp







lemma process_track_cases:
  assumes track: "track = [(''path'', PyStr p), (''title'', PyStr t), (''artist'', PyStr a),
      (''duration'', PyInt d), (''metadata'', PyStr m)]"
    and url: "urlparse p = Inr u"
  shows "(url_netloc u = ''open.spotify.com'' \<and> py_contains ''track'' (url_path u)
            \<and> extract_track_id_from_url p = Some i \<longrightarrow>
          process_track urlparse search st track = Inr (st\<lparr>st_track_ids := st_track_ids st @ [i]\<rparr>))
     \<and> (\<not> (url_netloc u = ''open.spotify.com'' \<and> py_contains ''track'' (url_path u)
            \<and> extract_track_id_from_url p \<noteq> None) \<longrightarrow>
          (\<exists>q. extract_search_query_from_song track = Inr q
             \<and> q = (if a \<noteq> [] \<and> t \<noteq> [] then ''track:'' @ t @ '' artist:'' @ a
                    else if p = [] then []
                    else (case split_first '' - '' (splitext_root (basename p)) of
                            Some (x, y) \<Rightarrow> ''track:'' @ y @ '' artist:'' @ x
                          | None \<Rightarrow> splitext_root (basename p)))
             \<and> (q = [] \<longrightarrow>
                  process_track urlparse search st track = Inr (track_failed st track (PyStr p)))
             \<and> (q \<noteq> [] \<longrightarrow>
                  (\<forall>reply r'. search (st_remote st) q = (reply, r') \<longrightarrow>
                     process_track urlparse search st track =
                       Inr (case reply of
                              Search_items (found # others) \<Rightarrow>
                                st\<lparr>st_remote := r', st_calls := st_calls st @ [Search_call q reply],
                                   st_track_ids := st_track_ids st @ [found]\<rparr>
                            | _ \<Rightarrow>
                                track_failed
                                  (st\<lparr>st_remote := r', st_calls := st_calls st @ [Search_call q reply]\<rparr>)
                                  track (PyStr p))))))"
proof (intro conjI impI)
  assume "url_netloc u = ''open.spotify.com'' \<and> py_contains ''track'' (url_path u)
            \<and> extract_track_id_from_url p = Some i"
  then show "process_track urlparse search st track = Inr (st\<lparr>st_track_ids := st_track_ids st @ [i]\<rparr>)"
    by (simp add: process_track_def is_spotify_url_def track url py_format_def Let_def)
next
  let ?q = "if a \<noteq> [] \<and> t \<noteq> [] then ''track:'' @ t @ '' artist:'' @ a
                    else if p = [] then []
                    else (case split_first '' - '' (splitext_root (basename p)) of
                            Some (x, y) \<Rightarrow> ''track:'' @ y @ '' artist:'' @ x
                          | None \<Rightarrow> splitext_root (basename p))"
  assume no: "\<not> (url_netloc u = ''open.spotify.com'' \<and> py_contains ''track'' (url_path u)
            \<and> extract_track_id_from_url p \<noteq> None)"
  have q: "extract_search_query_from_song track = Inr ?q"
    unfolding track by (rule extract_search_query_record)
  from no have run: "process_track urlparse search st track
      = Inr (search_for_track search st track (PyStr p))"
    by (auto simp: process_track_def is_spotify_url_def track url py_format_def Let_def
        split: bool.splits option.splits)
  have empty: "?q = [] \<longrightarrow>
      process_track urlparse search st track = Inr (track_failed st track (PyStr p))"
    unfolding run by (simp add: search_for_track_def q)
  have found: "?q \<noteq> [] \<longrightarrow>
      (\<forall>reply r'. search (st_remote st) ?q = (reply, r') \<longrightarrow>
         process_track urlparse search st track =
           Inr (case reply of
                  Search_items (found # others) \<Rightarrow>
                    st\<lparr>st_remote := r', st_calls := st_calls st @ [Search_call ?q reply],
                       st_track_ids := st_track_ids st @ [found]\<rparr>
                | _ \<Rightarrow>
                    track_failed
                      (st\<lparr>st_remote := r', st_calls := st_calls st @ [Search_call ?q reply]\<rparr>)
                      track (PyStr p)))"
    unfolding run
    by (simp add: search_for_track_def q Let_def split: search_reply.splits list.splits)
  from q empty found
  show "\<exists>q. extract_search_query_from_song track = Inr q
             \<and> q = ?q
             \<and> (q = [] \<longrightarrow>
                  process_track urlparse search st track = Inr (track_failed st track (PyStr p)))
             \<and> (q \<noteq> [] \<longrightarrow>
                  (\<forall>reply r'. search (st_remote st) q = (reply, r') \<longrightarrow>
                     process_track urlparse search st track =
                       Inr (case reply of
                              Search_items (found # others) \<Rightarrow>
                                st\<lparr>st_remote := r', st_calls := st_calls st @ [Search_call q reply],
                                   st_track_ids := st_track_ids st @ [found]\<rparr>
                            | _ \<Rightarrow>
                                track_failed
                                  (st\<lparr>st_remote := r', st_calls := st_calls st @ [Search_call q reply]\<rparr>)
                                  track (PyStr p))))"
    by blast
qed

section \<open>Claims\<close>

text \<open>
  C1 (as amended). Parser/writer round trip: for every list of track records that
  \<open>parse_m3u\<close> produces from an input file, the writer returns, and re-parsing the text
  it writes yields the same records in the same order, except that a record whose
  metadata string is empty, for which the writer writes no \<open>#EXTINF\<close> line, comes back
  with duration 0. So the list is identical when every record with empty metadata has
  duration 0.
\<close>

theorem parse_write_roundtrip:
  "\<exists>t. save_batch (parse_m3u s) = Inr t
      \<and> parse_m3u t = map forget_duration (parse_m3u s)
      \<and> ((\<forall>x \<in> set (parse_m3u s). map_of x ''metadata'' = Some (PyStr []) \<longrightarrow>
              map_of x ''duration'' = Some (PyInt 0)) \<longrightarrow> parse_m3u t = parse_m3u s)"
proof -
  from roundtrip_parse [of s] obtain t where w: "save_batch (parse_m3u s) = Inr t"
    and p: "parse_m3u t = map forget_duration (parse_m3u s)"
    by blast
  have "parse_m3u t = parse_m3u s"
    if h: "\<forall>x \<in> set (parse_m3u s). map_of x ''metadata'' = Some (PyStr []) \<longrightarrow>
              map_of x ''duration'' = Some (PyInt 0)"
  proof -
    have "forget_duration x = x" if x: "x \<in> set (parse_m3u s)" for x
    proof -
      from parse_m3u_good [OF x] obtain q d ta where mk: "x = mk_song q d ta"
        by (auto simp: good_song_def)
      from h x mk have "ta = [] \<longrightarrow> d = 0"
        by (auto simp: mk_song_def)
      with mk show ?thesis
        by (auto simp: forget_duration_mk_song)
    qed
    then have "map forget_duration (parse_m3u s) = parse_m3u s"
      by (simp add: map_idI)
    with p show ?thesis by simp
  qed
  with w p show ?thesis by blast
qed

theorem parse_write_roundtrip_witness:
  "save_batch (parse_m3u demo_m3u) =
     Inr (''#EXTM3U'' @ [CHR 0x0A] @ ''#EXTINF:123, Artist - Title'' @ [CHR 0x0A]
            @ ''/music/a.mp3'' @ [CHR 0x0A] @ ''b.mp3'' @ [CHR 0x0A])
   \<and> parse_m3u (''#EXTM3U'' @ [CHR 0x0A] @ ''#EXTINF:123, Artist - Title'' @ [CHR 0x0A]
            @ ''/music/a.mp3'' @ [CHR 0x0A] @ ''b.mp3'' @ [CHR 0x0A]) = parse_m3u demo_m3u"
proof -
  have w: "save_batch (parse_m3u demo_m3u) =
     Inr (''#EXTM3U'' @ [CHR 0x0A] @ ''#EXTINF:123, Artist - Title'' @ [CHR 0x0A]
            @ ''/music/a.mp3'' @ [CHR 0x0A] @ ''b.mp3'' @ [CHR 0x0A])"
    by code_simp
  have f: "map forget_duration (parse_m3u demo_m3u) = parse_m3u demo_m3u"
    by code_simp
  from parse_write_roundtrip [of demo_m3u] w f show ?thesis
    by auto
qed

text \<open>
  C1 as stated fails on a file whose \<open>#EXTINF\<close> line has a duration and no text after
  the comma: the record has duration 123 and empty metadata, the writer writes only its
  path, and the record that is read back has duration 0.
\<close>

theorem parse_write_roundtrip_counterexample:
  "parse_m3u lossy_m3u =
     [[(''path'', PyStr ''song.mp3''), (''title'', PyStr []), (''artist'', PyStr []),
       (''duration'', PyInt 123), (''metadata'', PyStr [])]]
   \<and> save_batch (parse_m3u lossy_m3u) = Inr (''#EXTM3U'' @ [CHR 0x0A] @ ''song.mp3'' @ [CHR 0x0A])
   \<and> parse_m3u (''#EXTM3U'' @ [CHR 0x0A] @ ''song.mp3'' @ [CHR 0x0A]) =
     [[(''path'', PyStr ''song.mp3''), (''title'', PyStr []), (''artist'', PyStr []),
       (''duration'', PyInt 0), (''metadata'', PyStr [])]]
   \<and> parse_m3u (''#EXTM3U'' @ [CHR 0x0A] @ ''song.mp3'' @ [CHR 0x0A]) \<noteq> parse_m3u lossy_m3u"
proof -
  have "parse_m3u (''#EXTM3U'' @ [CHR 0x0A] @ ''song.mp3'' @ [CHR 0x0A]) \<noteq> parse_m3u lossy_m3u"
    unfolding lossy_parse lossy_reparse by simp
  then show ?thesis
    by (intro conjI lossy_parse lossy_write lossy_reparse)
qed

text \<open>
  C2. For every input file text, every record in the list returned by \<open>parse_m3u\<close> has
  exactly the five keys \<open>'path'\<close>, \<open>'title'\<close>, \<open>'artist'\<close>, \<open>'duration'\<close>, \<open>'metadata'\<close>,
  where \<open>'path'\<close>, \<open>'title'\<close>, \<open>'artist'\<close> and \<open>'metadata'\<close> are strings and \<open>'duration'\<close>
  is an integer. In particular a path line with no preceding metadata line (a line that
  is not empty after stripping and does not start with \<open>#\<close>, read when no record is
  pending) yields a record with empty title, artist and metadata and duration 0.
\<close>

theorem parse_m3u_records:
  "(\<forall>x \<in> set (parse_m3u s).
      \<exists>path title artist duration metadata.
        x = [(''path'', PyStr path), (''title'', PyStr title), (''artist'', PyStr artist),
             (''duration'', PyInt duration), (''metadata'', PyStr metadata)])
   \<and> (\<forall>songs raw. py_strip raw \<noteq> [] \<and> \<not> prefix ''#'' (py_strip raw) \<longrightarrow>
        parse_step (songs, None) raw =
          (songs @ [[(''path'', PyStr (py_strip raw)), (''title'', PyStr []),
                     (''artist'', PyStr []), (''duration'', PyInt 0),
                     (''metadata'', PyStr [])]], None))"
proof (intro conjI ballI allI impI)
  fix x assume "x \<in> set (parse_m3u s)"
  from parse_m3u_good [OF this] show "\<exists>path title artist duration metadata.
        x = [(''path'', PyStr path), (''title'', PyStr title), (''artist'', PyStr artist),
             (''duration'', PyInt duration), (''metadata'', PyStr metadata)]"
    by (auto simp: good_song_def mk_song_def)
next
  fix songs raw
  assume "py_strip raw \<noteq> [] \<and> \<not> prefix ''#'' (py_strip raw)"
  with good_path_not_directive [of "py_strip raw"]
  show "parse_step (songs, None) raw =
          (songs @ [[(''path'', PyStr (py_strip raw)), (''title'', PyStr []),
                     (''artist'', PyStr []), (''duration'', PyInt 0),
                     (''metadata'', PyStr [])]], None)"
    by simp
qed

theorem parse_m3u_records_witness:
  "parse_m3u demo_m3u =
     [[(''path'', PyStr ''/music/a.mp3''), (''title'', PyStr ''Title''),
       (''artist'', PyStr ''Artist''), (''duration'', PyInt 123),
       (''metadata'', PyStr '' Artist - Title'')],
      [(''path'', PyStr ''b.mp3''), (''title'', PyStr []), (''artist'', PyStr []),
       (''duration'', PyInt 0), (''metadata'', PyStr [])]]
   \<and> parse_step ([], None) ''b.mp3'' =
       ([[(''path'', PyStr ''b.mp3''), (''title'', PyStr []), (''artist'', PyStr []),
          (''duration'', PyInt 0), (''metadata'', PyStr [])]], None)"
proof -
  have s: "py_strip ''b.mp3'' = ''b.mp3''"
    by code_simp
  from parse_m3u_records [of demo_m3u] s show ?thesis
    by (simp add: demo_parse)
qed

text \<open>
  C3. For every list of songs and every integer \<open>batch_size \<ge> 1\<close>,
  \<open>split_into_batches\<close> returns the consecutive slices of the input in order (the k-th
  batch is the slice that starts at \<open>k * batch_size\<close>): every batch except possibly the
  last has length exactly \<open>batch_size\<close>, the last batch has length between 1 and
  \<open>batch_size\<close>, the concatenation of all batches is the input list, and the empty list
  yields zero batches.
\<close>

theorem split_into_batches_spec:
  assumes "1 \<le> batch_size"
  shows "\<exists>bs. split_into_batches songs batch_size = Inr bs
      \<and> concat bs = songs
      \<and> (\<forall>k < length bs. bs ! k = take (nat batch_size) (drop (k * nat batch_size) songs))
      \<and> (\<forall>k. Suc k < length bs \<longrightarrow> int (length (bs ! k)) = batch_size)
      \<and> (bs \<noteq> [] \<longrightarrow> 1 \<le> length (last bs) \<and> int (length (last bs)) \<le> batch_size)
      \<and> (songs = [] \<longrightarrow> bs = [])"
proof -
  define n where "n = nat batch_size"
  with assms have n: "0 < n" and bn: "batch_size = int n" by simp_all
  have run: "split_into_batches songs batch_size = Inr (chunks songs n)"
    using assms by (simp add: split_into_batches_def n_def)
  have last_ok: "chunks songs n \<noteq> [] \<longrightarrow>
      1 \<le> length (last (chunks songs n)) \<and> int (length (last (chunks songs n))) \<le> batch_size"
    using chunks_length_le [OF n, of "last (chunks songs n)" songs] bn by simp
  show ?thesis
    using run last_ok concat_chunks [OF n, of songs] chunks_nth [OF n, of _ songs]
      chunks_length_full [OF n, of _ songs] bn
    by (simp add: n_def [symmetric])
qed

theorem split_into_batches_spec_witness:
  "split_into_batches [1, 2, 3, 4, 5 :: nat] 2 = Inr [[1, 2], [3, 4], [5]]
   \<and> split_into_batches ([] :: nat list) 2 = Inr []"
proof -
  have h: "(1::int) \<le> 2" by simp
  obtain bs where bs: "split_into_batches [1, 2, 3, 4, 5 :: nat] 2 = Inr bs"
    using split_into_batches_spec [OF h, of "[1, 2, 3, 4, 5 :: nat]"] by blast
  have "split_into_batches [1, 2, 3, 4, 5 :: nat] 2 = Inr [[1, 2], [3, 4], [5]]"
    by (simp add: split_into_batches_def chunks_def py_range.simps py_slice_def)
  moreover have "split_into_batches ([] :: nat list) 2 = Inr []"
    by (simp add: split_into_batches_def)
  ultimately show ?thesis using bs by simp
qed

text \<open>
  C4. \<open>find_duplicates\<close> returns no duplicate positions: the deduplicator never binds
  its \<open>logger\<close>, so for every list of playlist items the function raises NameError, at
  \<open>logger.debug\<close> in the branch of the first duplicate or else at \<open>logger.info\<close> after the
  loop, in front of \<open>return track_ids, duplicates\<close>. (With the logger bound, the function
  returns exactly the positions that the claim describes: lemma \<open>find_duplicates_bound\<close>.)
\<close>

theorem find_duplicates_raises:
  "find_duplicates Unbound tracks = Inl NameError"
  by (rule find_duplicates_unbound)

text \<open>
  C5. The deduplicator never issues a removal for a position that was not flagged. Run
  \<open>remove_duplicates\<close> on any track list and any list \<open>ps\<close> of positions, with the logger
  bound or not, against a remote service that keeps the batches it receives, whatever
  the outcomes of its calls. Then every batch the service has received has at most 100
  entries (and at least one); every entry it has received pairs the uri stored at one of
  the positions of \<open>ps\<close> with exactly that single position; the positions named are in
  descending order, strictly so when \<open>ps\<close> has no repetition, so that each position
  appears at most once; and when every position of \<open>ps\<close> is flagged, that is, carries
  track info whose id is the id of some earlier position that carries track info, then so
  is every position named in a call: no first occurrence of a track id is ever named.
  Whenever \<open>find_duplicates\<close> returns \<open>ps\<close> for the track list, \<open>ps\<close> has no repetition and
  only flagged positions. The entries that the function builds are one entry for each
  position of \<open>ps\<close>, in descending order, that is in range and stores a non-empty uri,
  each with that uri; the service receives them in consecutive batches of 100 when the
  logger is bound, and the first of these batches only when it is not (the function
  then raises NameError at the logger call that follows the first call).
\<close>

theorem remove_duplicates_spec:
  assumes run: "remove_duplicates logger (recording_api outcome) [] ps tracks = (result, received)"
  shows "(\<forall>b \<in> set received. 1 \<le> length b \<and> length b \<le> 100)
   \<and> (\<forall>e \<in> set (concat received). \<exists>p \<in> set ps. removal_positions e = [p] \<and> 0 \<le> p
         \<and> (\<exists>t. track_at tracks (nat p) = Some t \<and> tr_uri t = Some (removal_uri e)))
   \<and> sorted_wrt (\<ge>) (concat (map removal_positions (concat received)))
   \<and> (distinct ps \<longrightarrow> sorted_wrt (>) (concat (map removal_positions (concat received))))
   \<and> ((\<forall>p \<in> set ps. 0 \<le> p \<and> (\<exists>t. track_at tracks (nat p) = Some t
            \<and> (\<exists>q < nat p. \<exists>t'. track_at tracks q = Some t' \<and> tr_id t' = tr_id t))) \<longrightarrow>
       (\<forall>e \<in> set (concat received). \<forall>p \<in> set (removal_positions e).
          \<exists>t. track_at tracks (nat p) = Some t
            \<and> (\<exists>q < nat p. \<exists>t'. track_at tracks q = Some t' \<and> tr_id t' = tr_id t)))
   \<and> (\<forall>flagged_by ids. find_duplicates flagged_by tracks = Inr (ids, ps) \<longrightarrow>
         distinct ps
       \<and> (\<forall>p \<in> set ps. 0 \<le> p \<and> (\<exists>t. track_at tracks (nat p) = Some t
            \<and> (\<exists>q < nat p. \<exists>t'. track_at tracks q = Some t' \<and> tr_id t' = tr_id t))))
   \<and> (\<forall>entries. tracks_to_remove_loop tracks (rev (sort ps)) [] = Inr entries \<longrightarrow>
         map removal_positions entries
           = map (\<lambda>p. [p]) (filter (\<lambda>p. 0 \<le> p \<and> (\<exists>t u. track_at tracks (nat p) = Some t
                                        \<and> tr_uri t = Some u \<and> u \<noteq> [])) (rev (sort ps)))
       \<and> (\<forall>e \<in> set entries. \<exists>p. removal_positions e = [p]
             \<and> (\<exists>t. track_at tracks (nat p) = Some t \<and> tr_uri t = Some (removal_uri e)))
       \<and> received = (case logger of Bound \<Rightarrow> chunks entries 100
                      | Unbound \<Rightarrow> take 1 (chunks entries 100)))"
proof -
  note ch = remove_duplicates_char [OF run]
  from ch obtain rest where pos: "concat (map removal_positions (concat received)) @ rest
      = filter (removable tracks) (rev (sort ps))"
    by blast
  have size: "\<forall>b \<in> set received. 1 \<le> length b \<and> length b \<le> 100"
    using ch by simp
  have named: "\<forall>e \<in> set (concat received). \<exists>p \<in> set ps. removal_positions e = [p] \<and> 0 \<le> p
         \<and> (\<exists>t. track_at tracks (nat p) = Some t \<and> tr_uri t = Some (removal_uri e))"
  proof
    fix e assume e: "e \<in> set (concat received)"
    with ch have "entry_ok tracks e" by blast
    then obtain p where p: "removal_positions e = [p]" "0 \<le> p"
      "\<exists>t. track_at tracks (nat p) = Some t \<and> tr_uri t = Some (removal_uri e)"
      by (auto simp: entry_ok_def)
    from e p have "p \<in> set (concat (map removal_positions (concat received)))"
      by force
    then have "p \<in> set (filter (removable tracks) (rev (sort ps)))"
      unfolding pos [symmetric] by simp
    then have "p \<in> set ps" by simp
    with p show "\<exists>p \<in> set ps. removal_positions e = [p] \<and> 0 \<le> p
            \<and> (\<exists>t. track_at tracks (nat p) = Some t \<and> tr_uri t = Some (removal_uri e))"
      by blast
  qed
  have "sorted_wrt (\<ge>) (filter (removable tracks) (rev (sort ps)))"
    by (rule sorted_wrt_filter) (rule sorted_desc)
  then have desc: "sorted_wrt (\<ge>) (concat (map removal_positions (concat received)))"
    unfolding pos [symmetric] by (simp add: sorted_wrt_append)
  have strict: "sorted_wrt (>) (concat (map removal_positions (concat received)))" if "distinct ps"
  proof -
    have "sorted_wrt (>) (filter (removable tracks) (rev (sort ps)))"
      by (rule sorted_wrt_filter) (rule sorted_desc_strict [OF that])
    then show ?thesis
      unfolding pos [symmetric] by (simp add: sorted_wrt_append)
  qed
  have first: "\<forall>e \<in> set (concat received). \<forall>p \<in> set (removal_positions e).
          \<exists>t. track_at tracks (nat p) = Some t
            \<and> (\<exists>q < nat p. \<exists>t'. track_at tracks q = Some t' \<and> tr_id t' = tr_id t)"
    if fl: "\<forall>p \<in> set ps. 0 \<le> p \<and> (\<exists>t. track_at tracks (nat p) = Some t
            \<and> (\<exists>q < nat p. \<exists>t'. track_at tracks q = Some t' \<and> tr_id t' = tr_id t))"
  proof (intro ballI)
    fix e p assume e: "e \<in> set (concat received)" and p: "p \<in> set (removal_positions e)"
    from named e obtain p' where "p' \<in> set ps" "removal_positions e = [p']" by blast
    with p have "p \<in> set ps" by simp
    with fl show "\<exists>t. track_at tracks (nat p) = Some t
            \<and> (\<exists>q < nat p. \<exists>t'. track_at tracks q = Some t' \<and> tr_id t' = tr_id t)"
      by blast
  qed
  have flagged: "distinct ps
       \<and> (\<forall>p \<in> set ps. 0 \<le> p \<and> (\<exists>t. track_at tracks (nat p) = Some t
            \<and> (\<exists>q < nat p. \<exists>t'. track_at tracks q = Some t' \<and> tr_id t' = tr_id t)))"
    if fd: "find_duplicates flagged_by tracks = Inr (ids, ps)" for flagged_by ids
  proof -
    from find_duplicates_returns [OF fd]
    have ps: "ps = map int (filter (repeats tracks) [0..<length tracks])" by simp
    have "distinct ps"
      unfolding ps by (simp add: distinct_map inj_on_def)
    moreover have "\<forall>p \<in> set ps. 0 \<le> p \<and> repeats tracks (nat p)"
      unfolding ps by auto
    ultimately show ?thesis
      by (simp add: repeats_def carries_id_def)
  qed
  have built: "map removal_positions entries
           = map (\<lambda>p. [p]) (filter (\<lambda>p. 0 \<le> p \<and> (\<exists>t u. track_at tracks (nat p) = Some t
                                        \<and> tr_uri t = Some u \<and> u \<noteq> [])) (rev (sort ps)))
       \<and> (\<forall>e \<in> set entries. \<exists>p. removal_positions e = [p]
             \<and> (\<exists>t. track_at tracks (nat p) = Some t \<and> tr_uri t = Some (removal_uri e)))
       \<and> received = (case logger of Bound \<Rightarrow> chunks entries 100
                      | Unbound \<Rightarrow> take 1 (chunks entries 100))"
    if loop: "tracks_to_remove_loop tracks (rev (sort ps)) [] = Inr entries" for entries
  proof -
    from tracks_to_remove_loop_char [OF loop]
    have c: "concat (map removal_positions entries) = filter (removable tracks) (rev (sort ps))"
      and ok: "\<forall>e \<in> set entries. entry_ok tracks e"
      by auto
    from ok have single: "\<forall>e \<in> set entries. \<exists>p. removal_positions e = [p]"
      by (auto simp: entry_ok_def)
    have "map removal_positions entries = map (\<lambda>p. [p]) (concat (map removal_positions entries))"
      using single by (induction entries) auto
    then have a: "map removal_positions entries
        = map (\<lambda>p. [p]) (filter (removable tracks) (rev (sort ps)))"
      by (simp only: c)
    have r: "removable tracks = (\<lambda>p. 0 \<le> p \<and> (\<exists>t u. track_at tracks (nat p) = Some t
                                        \<and> tr_uri t = Some u \<and> u \<noteq> []))"
      by (rule ext) (simp add: removable_def)
    from run remove_duplicates_received [of logger outcome ps tracks] loop
    have "received = (case logger of Bound \<Rightarrow> chunks entries 100
                      | Unbound \<Rightarrow> take 1 (chunks entries 100))"
      by simp
    with a ok show ?thesis
      unfolding r by (auto simp: entry_ok_def)
  qed
  from size named desc strict first flagged built show ?thesis
    by (intro conjI allI impI) blast+
qed

theorem remove_duplicates_spec_witness:
  "remove_duplicates Unbound (recording_api demo_outcome) [] [3, 5] demo_playlist =
     (Inl NameError, [[\<lparr>removal_uri = ''uri:b'', removal_positions = [5]\<rparr>,
                       \<lparr>removal_uri = ''uri:a'', removal_positions = [3]\<rparr>]])
   \<and> tracks_to_remove_loop demo_playlist (rev (sort [3, 5])) [] =
       Inr [\<lparr>removal_uri = ''uri:b'', removal_positions = [5]\<rparr>,
            \<lparr>removal_uri = ''uri:a'', removal_positions = [3]\<rparr>]
   \<and> track_at demo_playlist 0 = track_at demo_playlist 3
   \<and> track_at demo_playlist 2 = track_at demo_playlist 5"
  using remove_duplicates_spec [OF demo_remove_unbound]
  by (simp add: demo_remove_unbound) (simp add: track_at_def demo_playlist_def demo_track_def)

text \<open>
  C6. A record whose path is a URL with host \<open>open.spotify.com\<close>, with \<open>track\<close> in its path
  and an alphanumeric id after \<open>track/\<close>, is not always resolved from the URL:
  \<open>is_spotify_url\<close> compares the netloc of the parsed URL, not its host, with
  \<open>open.spotify.com\<close>. For the path \<open>https://open.spotify.com:443/track/abc123\<close> the
  netloc is \<open>open.spotify.com:443\<close>, the host is \<open>open.spotify.com\<close>, the path contains
  \<open>track\<close> and the id after \<open>track/\<close> is \<open>abc123\<close>; yet \<open>is_spotify_url\<close> returns
  \<open>False\<close>, and the loop body sends the search query \<open>abc123\<close> to the remote service and,
  as the service finds nothing, records the track as failed. For the same URL without
  the port the loop body takes \<open>abc123\<close> from the URL and sends no request. (For a path
  that the URL parser accepts, what the loop body does in each case is lemma
  \<open>process_track_cases\<close>.)
\<close>

theorem is_spotify_url_port:
  "urlparse_py bracketed_host_ok port_url
     = Inr \<lparr>url_netloc = ''open.spotify.com:443'', url_path = ''/track/abc123''\<rparr>
   \<and> url_hostname ''open.spotify.com:443'' = ''open.spotify.com''
   \<and> py_contains ''track'' ''/track/abc123''
   \<and> extract_track_id_from_url port_url = Some ''abc123''
   \<and> is_spotify_url (urlparse_py bracketed_host_ok) (PyStr port_url) = Inr False
   \<and> process_track (urlparse_py bracketed_host_ok) (recording_search demo_reply)
         \<lparr>st_track_ids = [], st_failed_tracks = [], st_failed_file = [], st_remote = [],
          st_calls = []\<rparr> (bare_song port_url)
       = Inr \<lparr>st_track_ids = [], st_failed_tracks = [bare_song port_url],
              st_failed_file = [port_url @ [CHR 0x0A]],
              st_remote = [Search_request ''abc123''],
              st_calls = [Search_call ''abc123'' (Search_items [])]\<rparr>
   \<and> process_track (urlparse_py bracketed_host_ok) (recording_search demo_reply)
         \<lparr>st_track_ids = [], st_failed_tracks = [], st_failed_file = [], st_remote = [],
          st_calls = []\<rparr> (bare_song ''https://open.spotify.com/track/abc123'')
       = Inr \<lparr>st_track_ids = [''abc123''], st_failed_tracks = [], st_failed_file = [],
              st_remote = [], st_calls = []\<rparr>"
proof -
  have u: "urlparse_py bracketed_host_ok port_url
     = Inr \<lparr>url_netloc = ''open.spotify.com:443'', url_path = ''/track/abc123''\<rparr>"
    by code_simp
  have h: "url_hostname ''open.spotify.com:443'' = ''open.spotify.com''"
    by code_simp
  have c: "py_contains ''track'' ''/track/abc123''"
    by code_simp
  have i: "extract_track_id_from_url port_url = Some ''abc123''"
    by code_simp
  have s: "is_spotify_url (urlparse_py bracketed_host_ok) (PyStr port_url) = Inr False"
    by code_simp
  have p: "process_track (urlparse_py bracketed_host_ok) (recording_search demo_reply)
         \<lparr>st_track_ids = [], st_failed_tracks = [], st_failed_file = [], st_remote = [],
          st_calls = []\<rparr> (bare_song port_url)
       = Inr \<lparr>st_track_ids = [], st_failed_tracks = [bare_song port_url],
              st_failed_file = [port_url @ [CHR 0x0A]],
              st_remote = [Search_request ''abc123''],
              st_calls = [Search_call ''abc123'' (Search_items [])]\<rparr>"
    by code_simp
  have q: "process_track (urlparse_py bracketed_host_ok) (recording_search demo_reply)
         \<lparr>st_track_ids = [], st_failed_tracks = [], st_failed_file = [], st_remote = [],
          st_calls = []\<rparr> (bare_song ''https://open.spotify.com/track/abc123'')
       = Inr \<lparr>st_track_ids = [''abc123''], st_failed_tracks = [], st_failed_file = [],
              st_remote = [], st_calls = []\<rparr>"
    by code_simp
  from u h c i s p q show ?thesis by (intro conjI)
qed



text \<open>
  C8. On the batch file \<open>crash_batch\<close>, whose second track has the path \<open>http://[\<close>,
  \<open>process_m3u_batch\<close> does not return its triple: the URL parser raises ValueError for
  the unmatched bracket, \<open>is_spotify_url\<close> is called outside the \<open>try\<close> block of the
  loop body, and the exception ends the function with the third track unprocessed and
  nothing added. (When the URL parser accepts every path, the function does log and
  skip: lemma \<open>process_m3u_batch_log_and_skip\<close>.)
\<close>

theorem process_m3u_batch_stops:
  "parse_m3u crash_batch =
     [[(''path'', PyStr ''/music/a.mp3''), (''title'', PyStr ''Title''), (''artist'', PyStr ''Artist''),
       (''duration'', PyInt 123), (''metadata'', PyStr ''Artist - Title'')],
      bare_song ''http://['', bare_song ''/music/b.mp3'']
   \<and> process_m3u_batch (urlparse_py bracketed_host_ok) demo_search demo_add 0 crash_batch
       = Inl ValueError"
proof -
  have p: "parse_m3u crash_batch =
     [[(''path'', PyStr ''/music/a.mp3''), (''title'', PyStr ''Title''), (''artist'', PyStr ''Artist''),
       (''duration'', PyInt 123), (''metadata'', PyStr ''Artist - Title'')],
      bare_song ''http://['', bare_song ''/music/b.mp3'']"
    by code_simp
  have u1: "urlparse_py bracketed_host_ok ''/music/a.mp3'' = Inr \<lparr>url_netloc = [], url_path = ''/music/a.mp3''\<rparr>"
    by code_simp
  have u2: "urlparse_py bracketed_host_ok ''http://['' = Inl ValueError"
    by code_simp
  have c: "py_contains ''track'' ''/music/a.mp3'' = False"
    by code_simp
  have q: "extract_search_query_from_song
      [(''path'', PyStr ''/music/a.mp3''), (''title'', PyStr ''Title''), (''artist'', PyStr ''Artist''),
       (''duration'', PyInt 123), (''metadata'', PyStr ''Artist - Title'')] = Inr ''track:Title artist:Artist''"
    by code_simp
  have s: "demo_search 0 ''track:Title artist:Artist'' = (Search_items [''id1'', ''id2''], Suc 0)"
    by code_simp
  have "process_m3u_batch (urlparse_py bracketed_host_ok) demo_search demo_add 0 crash_batch
       = Inl ValueError"
    by (simp add: process_m3u_batch_def p process_track_def is_spotify_url_def u1 u2 c
        search_for_track_def q s bare_song_def)
  with p show ?thesis by blast
qed

text \<open>
  C9. The claim holds of \<open>fetch_playlist_tracks\<close> (lemma \<open>fetch_playlist_tracks_run\<close>: on
  every finite sequence of pages whose last page is the first with an empty \<open>'next'\<close>
  field it requests the offsets 0, 100, 200, ... and returns the concatenation of the
  \<open>'items'\<close> lists). \<open>get_playlist_tracks\<close> does not return the concatenation: the
  deduplicator never binds its \<open>logger\<close>, so after it has requested the pages the call
  \<open>logger.info\<close> in front of \<open>return tracks\<close> raises NameError. On the two pages of
  \<open>demo_pages\<close>, with items 1, 2 and 3, \<open>fetch_playlist_tracks\<close> returns \<open>[1, 2, 3]\<close> and
  \<open>get_playlist_tracks\<close> makes its two requests and raises; and on no sequence of
  pages does \<open>get_playlist_tracks\<close> return a list.
\<close>

theorem get_playlist_tracks_raises:
  "get_playlist_tracks Unbound demo_pages =
     Some (Inl NameError, [Playlist_items None, Next (hd demo_pages)])
   \<and> fetch_playlist_tracks demo_pages =
     Some ([1, 2, 3], [Playlist_items (Some (100, 0)), Playlist_items (Some (100, 100))])
   \<and> (\<forall>pages items requests.
        get_playlist_tracks Unbound (pages :: 'a page list) \<noteq> Some (Inr items, requests))"
proof -
  have "get_playlist_tracks Unbound demo_pages =
     Some (Inl NameError, [Playlist_items None, Next (hd demo_pages)])"
    by (simp add: get_playlist_tracks_def demo_pages_def has_next_def)
  moreover have "fetch_playlist_tracks demo_pages =
     Some ([1, 2, 3], [Playlist_items (Some (100, 0)), Playlist_items (Some (100, 100))])"
    by (simp add: fetch_playlist_tracks_def demo_pages_def has_next_def)
  ultimately show ?thesis
    using get_playlist_tracks_unbound by blast
qed

text \<open>
  C10. \<open>normalize_tracks\<close> does not return a list of the length of its input for every
  input: when some item of the input has a track whose \<open>'album'\<close> is null, the function
  raises AttributeError (\<open>track.get('album', {})\<close> is \<open>None\<close> there, and \<open>.get('id')\<close> is
  called on it), and no record is returned for any item. (When no track of the input
  has a null album, the function returns one record for each item, with the fields that
  the claim describes: lemmas \<open>normalize_tracks_returns\<close> and \<open>normalize_item_fields\<close>.)
\<close>

theorem normalize_tracks_null_album:
  assumes "item \<in> set items" and "i_track item = Some track" and "t_album track = Null"
  shows "normalize_tracks items = Inl AttributeError"
proof -
  from py_enumerate_mem [OF assms(1)]
  obtain index where mem: "(index, item) \<in> set (py_enumerate items)" ..
  have "\<exists>track. i_track item = Some track \<and> t_album track = Null"
    using assms(2,3) by (intro exI conjI)
  then have "normalize_item index item = Inl AttributeError"
    unfolding normalize_item_raises by (intro conjI refl)
  with mem show ?thesis
    unfolding normalize_tracks_def by (rule normalize_loop_raises)
qed

theorem normalize_tracks_null_album_witness:
  "normalize_tracks null_album_items = Inl AttributeError
   \<and> length null_album_items = 3
   \<and> t_album (the (i_track (null_album_items ! 1))) = Null"
  using normalize_tracks_null_album [of "null_album_items ! 1" null_album_items
      "the (i_track (null_album_items ! 1))"]
  by (simp add: null_album_items_def)

end
